theory Spec2Isabelle
  imports Complex_Main "HOL-Library.Word"
begin

unbundle bit_operations_syntax

section \<open>Machine types\<close>

text \<open>
  \<open>uint8_t\<close> is an 8-bit word. The generator is instantiated in \<open>isaacRandomPool.h\<close> as
  \<open>QTIsaac<IsaacRandomPool::ALPHA, uint32_t>\<close>, so its term type \<open>T\<close> is a 32-bit word.
  \<open>size_t\<close> values are natural numbers; where the source mixes them with \<open>int\<close> the
  conversions are written out for a platform with 64-bit \<open>size_t\<close> and 32-bit \<open>int\<close>.
\<close>

type_synonym byte = "8 word"
type_synonym T = "32 word"

section \<open>Path normalisation (isaac.hpp, getValidFile)\<close>

text \<open>\<open>std::string::find_last_of(c)\<close>: the last position holding \<open>c\<close>, \<open>None\<close> for \<open>npos\<close>.\<close>

fun find_last_of :: "string \<Rightarrow> char \<Rightarrow> nat option" where
  "find_last_of [] c = None"
| "find_last_of (x # xs) c =
     (case find_last_of xs c of
        Some p \<Rightarrow> Some (Suc p)
      | None \<Rightarrow> if x = c then Some 0 else None)"

text \<open>\<open>s.substr(pos)\<close> and \<open>s.substr(pos, n)\<close> for \<open>pos \<le> s.size()\<close>.\<close>

definition substr_from :: "string \<Rightarrow> nat \<Rightarrow> string" where
  "substr_from s pos = drop pos s"

definition substr :: "string \<Rightarrow> nat \<Rightarrow> nat \<Rightarrow> string" where
  "substr s pos n = take n (drop pos s)"

definition getValidFile :: "string \<Rightarrow> string" where
  "getValidFile file =
     (case find_last_of file CHR ''/'' of
        None \<Rightarrow> ''./'' @ file
      | Some pos \<Rightarrow>
          let filename = substr_from file pos;
              path = substr file 0 pos;
              filename = (if length filename > 32 then substr filename 0 32 else filename)
          in path @ filename)"

section \<open>Errors\<close>

text \<open>
  What the C++ code can do instead of returning: throw the \<open>std::runtime_error\<close> of
  \<open>GenerateBlock\<close>, access memory outside an array (undefined behaviour), divide by
  zero, leave the range of an \<open>int\<close> that holds a size, or throw \<open>std::length_error\<close>.
\<close>

datatype error = RngUninitialised | OutOfBounds | DivisionByZero | IntOverflow | LengthError

section \<open>Seed generator (seedGenerator.h, seedGenerator.cpp)\<close>

text \<open>
  A rolling \<open>CryptoPP::SHA3_512\<close> context is the list of bytes it has absorbed; the hash
  itself is a parameter \<open>sha3_512\<close>. \<open>Final\<close> writes \<open>DIGESTSIZE\<close> bytes into the digest array
  and restarts the context. A finite \<open>double\<close> or \<open>float\<close> is the rational number it holds;
  the roundings of the platform to the two formats are parameters (\<open>rounding\<close>), applied
  wherever the source computes a \<open>double\<close> or stores into a \<open>float\<close>.
\<close>

record rounding =
  to_float :: "rat \<Rightarrow> rat"
  to_double :: "rat \<Rightarrow> rat"

definition DIGESTSIZE_512 :: nat where
  "DIGESTSIZE_512 = 64"

definition ENTROPYTHRESHOLD :: rat where
  "ENTROPYTHRESHOLD = 1 / 4"

text \<open>The \<open>n\<close> bytes of a digest array after the hash has written its output into it.\<close>

definition fit :: "nat \<Rightarrow> byte list \<Rightarrow> byte list" where
  "fit n xs = take n (xs @ replicate n 0)"

record SeedGenerator =
  digests :: "byte list list"
  hashVec :: "byte list list"
  numDivs :: nat
  seedReady :: bool

definition SeedGenerator_new :: "nat \<Rightarrow> SeedGenerator" where
  "SeedGenerator_new n =
     \<lparr>digests = replicate n (replicate DIGESTSIZE_512 0),
      hashVec = replicate n [],
      numDivs = n,
      seedReady = False\<rparr>"

definition byteBitProbs :: "rat list" where
  "byteBitProbs =
    [0, 1 / 8, 1 / 8, 1 / 4, 1 / 8, 1 / 4, 1 / 4, 3 / 8, 1 / 8, 1 / 4, 1 / 4, 3 / 8,
     1 / 4, 3 / 8, 3 / 8, 1 / 2, 1 / 8, 1 / 4, 1 / 4, 3 / 8, 1 / 4, 3 / 8, 3 / 8, 1 / 2,
     1 / 4, 3 / 8, 3 / 8, 1 / 2, 3 / 8, 1 / 2, 1 / 2, 5 / 8, 1 / 8, 1 / 4, 1 / 4, 3 / 8,
     1 / 4, 3 / 8, 3 / 8, 1 / 2, 1 / 4, 3 / 8, 3 / 8, 1 / 2, 3 / 8, 1 / 2, 1 / 2, 5 / 8,
     1 / 4, 3 / 8, 3 / 8, 1 / 2, 3 / 8, 1 / 2, 1 / 2, 5 / 8, 3 / 8, 1 / 2, 1 / 2, 5 / 8,
     1 / 2, 5 / 8, 5 / 8, 3 / 4, 1 / 8, 1 / 4, 1 / 4, 3 / 8, 1 / 4, 3 / 8, 3 / 8, 1 / 2,
     1 / 4, 3 / 8, 3 / 8, 1 / 2, 3 / 8, 1 / 2, 1 / 2, 5 / 8, 1 / 4, 3 / 8, 3 / 8, 1 / 2,
     3 / 8, 1 / 2, 1 / 2, 5 / 8, 3 / 8, 1 / 2, 1 / 2, 5 / 8, 1 / 2, 5 / 8, 5 / 8, 3 / 4,
     1 / 4, 3 / 8, 3 / 8, 1 / 2, 3 / 8, 1 / 2, 1 / 2, 5 / 8, 3 / 8, 1 / 2, 1 / 2, 5 / 8,
     1 / 2, 5 / 8, 5 / 8, 3 / 4, 3 / 8, 1 / 2, 1 / 2, 5 / 8, 1 / 2, 5 / 8, 5 / 8, 3 / 4,
     1 / 2, 5 / 8, 5 / 8, 3 / 4, 5 / 8, 3 / 4, 3 / 4, 7 / 8, 1 / 8, 1 / 4, 1 / 4, 3 / 8,
     1 / 4, 3 / 8, 3 / 8, 1 / 2, 1 / 4, 3 / 8, 3 / 8, 1 / 2, 3 / 8, 1 / 2, 1 / 2, 5 / 8,
     1 / 4, 3 / 8, 3 / 8, 1 / 2, 3 / 8, 1 / 2, 1 / 2, 5 / 8, 3 / 8, 1 / 2, 1 / 2, 5 / 8,
     1 / 2, 5 / 8, 5 / 8, 3 / 4, 1 / 4, 3 / 8, 3 / 8, 1 / 2, 3 / 8, 1 / 2, 1 / 2, 5 / 8,
     3 / 8, 1 / 2, 1 / 2, 5 / 8, 1 / 2, 5 / 8, 5 / 8, 3 / 4, 3 / 8, 1 / 2, 1 / 2, 5 / 8,
     1 / 2, 5 / 8, 5 / 8, 3 / 4, 1 / 2, 5 / 8, 5 / 8, 3 / 4, 5 / 8, 3 / 4, 3 / 4, 7 / 8,
     1 / 4, 3 / 8, 3 / 8, 1 / 2, 3 / 8, 1 / 2, 1 / 2, 5 / 8, 3 / 8, 1 / 2, 1 / 2, 5 / 8,
     1 / 2, 5 / 8, 5 / 8, 3 / 4, 3 / 8, 1 / 2, 1 / 2, 5 / 8, 1 / 2, 5 / 8, 5 / 8, 3 / 4,
     1 / 2, 5 / 8, 5 / 8, 3 / 4, 5 / 8, 3 / 4, 3 / 4, 7 / 8, 3 / 8, 1 / 2, 1 / 2, 5 / 8,
     1 / 2, 5 / 8, 5 / 8, 3 / 4, 1 / 2, 5 / 8, 5 / 8, 3 / 4, 5 / 8, 3 / 4, 3 / 4, 7 / 8,
     1 / 2, 5 / 8, 5 / 8, 3 / 4, 5 / 8, 3 / 4, 3 / 4, 7 / 8, 5 / 8, 3 / 4, 3 / 4, 7 / 8,
     3 / 4, 7 / 8, 7 / 8, 1]"

text \<open>
  \<open>entropy(begin, end)\<close>: the mean of the table entries of the bytes, summed and divided in
  \<open>double\<close>. On an empty range the source divides 0.0 by 0.0; the NaN compares false.
\<close>

definition entropy :: "rounding \<Rightarrow> byte list \<Rightarrow> bool" where
  "entropy r bs =
     (let byteProbSum = foldl (\<lambda>s b. to_double r (s + byteBitProbs ! unat b)) 0 bs;
          size = length bs
      in size \<noteq> 0 \<and> to_double r (byteProbSum / of_nat size) > ENTROPYTHRESHOLD)"

text \<open>
  The virtual interface \<open>RandomSource\<close>: a source with state \<open>'s\<close> is given by its two
  methods.
\<close>

record 's RandomSource =
  rs_appendData :: "'s \<Rightarrow> byte list \<Rightarrow> 's \<times> byte list"
  rs_bitEntropy :: "'s \<Rightarrow> rat list"

text \<open>
  The loop over the first \<open>numDivs - 1\<close> batches and the final batch. \<open>it\<close> is the data from
  the iterator on; the result is the return value and the hash contexts. \<open>stepSize\<close> is an
  \<open>int\<close> in the source: where the quotient does not fit, \<open>processFromSource\<close> below stops
  with \<open>IntOverflow\<close>. In \<open>processFromSource\<close> the estimates are summed by
  \<open>std::accumulate\<close> from \<open>0.0f\<close>: each sum is computed in \<open>double\<close> and stored into the
  \<open>float\<close> accumulator; the mean is a \<open>double\<close> division. On an empty vector the mean is
  0.0 / 0.0 and the comparison is false.
\<close>

function processBatches ::
  "rounding \<Rightarrow> nat \<Rightarrow> nat \<Rightarrow> nat \<Rightarrow> nat \<Rightarrow> byte list list \<Rightarrow> byte list
   \<Rightarrow> bool \<times> byte list list" where
  "processBatches r n stepSize excess i hv it =
     (if i + 1 < n then
        (if \<not> entropy r (take stepSize it) then (False, hv)
         else processBatches r n stepSize excess (i + 1)
                (hv[i := hv ! i @ take stepSize it]) (drop stepSize it))
      else
        (if \<not> entropy r (take (stepSize + excess) it) then (False, hv)
         else (True, hv[n - 1 := hv ! (n - 1) @ take (stepSize + excess) it])))"
  by pat_completeness auto
termination
  by (relation "measure (\<lambda>(r, n, stepSize, excess, i, hv, it). n - i)") auto

definition processFromSource ::
  "rounding \<Rightarrow> 's RandomSource \<Rightarrow> SeedGenerator \<Rightarrow> 's
   \<Rightarrow> error + (bool \<times> SeedGenerator \<times> 's)" where
  "processFromSource r randomSource g s =
     (if seedReady g then Inr (False, g, s)
      else
        let sampleAvgVec = rs_bitEntropy randomSource s;
            sum = foldl (\<lambda>acc x. to_float r (to_double r (acc + x))) 0 sampleAvgVec;
            avgSampleEntropy = to_double r (sum / of_nat (length sampleAvgVec))
        in if sampleAvgVec \<noteq> [] \<and> avgSampleEntropy < ENTROPYTHRESHOLD
           then Inr (False, g, s)
           else
             let (s', randomData) = rs_appendData randomSource s []
             in if numDivs g = 0 then Inl DivisionByZero
                else if length (hashVec g) < numDivs g then Inl OutOfBounds
                else if length randomData div numDivs g \<ge> 2 ^ 31 then Inl IntOverflow
                else
                  let stepSize = length randomData div numDivs g;
                      excess = length randomData mod numDivs g;
                      (ok, hv) =
                        processBatches r (numDivs g) stepSize excess 0 (hashVec g) randomData
                  in Inr (ok, g\<lparr>hashVec := hv\<rparr>, s'))"

definition generateSeed :: "(byte list \<Rightarrow> byte list) \<Rightarrow> SeedGenerator \<Rightarrow> SeedGenerator" where
  "generateSeed sha3_512 g =
     (if seedReady g then g
      else g\<lparr>digests := map (\<lambda>h. fit DIGESTSIZE_512 (sha3_512 h)) (hashVec g),
             hashVec := map (\<lambda>h. []) (hashVec g),
             seedReady := True\<rparr>)"

definition resetState :: "SeedGenerator \<Rightarrow> SeedGenerator" where
  "resetState g = (if seedReady g then g\<lparr>seedReady := False\<rparr> else g)"

text \<open>
  \<open>groupBytes(begin, end, out, numBytes)\<close> on one digest array \<open>arr\<close>, with \<open>begin\<close> and \<open>end\<close> as
  offsets into it. A term of \<open>numBytes\<close> bytes (an unsigned type, as the pool's
  \<open>uint32_t\<close>) is the natural number it holds; the inner loop
  \<open>*out = ((*out) << 8) + *begin\<close> reads \<open>numBytes\<close> bytes without looking at \<open>end\<close>, and the
  outer loop only stops when \<open>begin\<close> is equal to \<open>end\<close>. A read outside the array is
  \<open>OutOfBounds\<close>. The result lists the terms stored through \<open>out\<close>, in order.
\<close>

definition groupTerm :: "nat \<Rightarrow> byte list \<Rightarrow> nat" where
  "groupTerm numBytes bs = foldl (\<lambda>t b. (t * 256 + unat b) mod 2 ^ (8 * numBytes)) 0 bs"

function groupBytes :: "byte list \<Rightarrow> nat \<Rightarrow> nat \<Rightarrow> nat \<Rightarrow> error + nat list" where
  "groupBytes arr beginI endI numBytes =
     (if beginI = endI then Inr []
      else if numBytes = 0 \<or> length arr < beginI + numBytes then Inl OutOfBounds
      else case groupBytes arr (beginI + numBytes) endI numBytes of
             Inl e \<Rightarrow> Inl e
           | Inr ts \<Rightarrow> Inr (groupTerm numBytes (take numBytes (drop beginI arr)) # ts))"
  by pat_completeness auto
termination
  by (relation "measure (\<lambda>(arr, beginI, endI, numBytes). length arr - beginI)") auto

text \<open>The loop of \<open>copySeed\<close> over the digests; \<open>len\<close> is the number of terms still wanted.\<close>

fun copyDigests :: "nat \<Rightarrow> nat \<Rightarrow> byte list list \<Rightarrow> nat \<Rightarrow> error + nat list" where
  "copyDigests numBytes possibleGroups [] len = Inr []"
| "copyDigests numBytes possibleGroups (d # ds) len =
     (if possibleGroups > len then groupBytes d 0 len numBytes
      else case groupBytes d 0 DIGESTSIZE_512 numBytes of
             Inl e \<Rightarrow> Inl e
           | Inr ts \<Rightarrow>
               (case copyDigests numBytes possibleGroups ds (len - possibleGroups) of
                  Inl e \<Rightarrow> Inl e
                | Inr rest \<Rightarrow> Inr (ts @ rest)))"

text \<open>
  \<open>copySeed<T>(seed, len)\<close> with \<open>numBytes = sizeof(T)\<close>: the terms stored through \<open>seed\<close>, in
  order, and the generator afterwards.
\<close>

definition copySeed :: "SeedGenerator \<Rightarrow> nat \<Rightarrow> nat \<Rightarrow> error + (nat list \<times> SeedGenerator)" where
  "copySeed g numBytes len =
     (if \<not> seedReady g then Inr ([], g)
      else if numBytes AND (numBytes - 1) \<noteq> 0 then Inr ([], g)
      else if numBytes = 0 then Inl DivisionByZero
      else
        let possibleGroups = DIGESTSIZE_512 div numBytes
        in if len > possibleGroups * length (digests g) then Inr ([], g)
           else case copyDigests numBytes possibleGroups (digests g) len of
                  Inl e \<Rightarrow> Inl e
                | Inr written \<Rightarrow> Inr (written, g\<lparr>seedReady := False\<rparr>))"

text \<open>
  The terms of one digest as the specification describes them: successive groups of
  \<open>numBytes\<close> bytes, each read with the most significant byte first.
\<close>

definition terms_of :: "nat \<Rightarrow> byte list \<Rightarrow> nat list" where
  "terms_of numBytes d =
     map (\<lambda>j. groupTerm numBytes (take numBytes (drop (j * numBytes) d)))
       [0 ..< length d div numBytes]"

section \<open>OS entropy source (interfaceOSRNG.h, interfaceOSRNG.cpp)\<close>

text \<open>
  The members \<open>_osrngData\<close>, \<open>_bitEntropy\<close> (a \<open>std::vector<double>\<close> of occurrence counts)
  and \<open>_bitCountCache\<close>. Allocation failure (\<open>std::bad_alloc\<close>) is not part of the model.
\<close>

record InterfaceOSRNG =
  osrngData :: "byte list"
  m_bitEntropy :: "rat list"
  bitCountCache :: "byte list list"

definition InterfaceOSRNG_new :: InterfaceOSRNG where
  "InterfaceOSRNG_new =
     \<lparr>osrngData = [], m_bitEntropy = replicate 8 0, bitCountCache = replicate 256 []\<rparr>"

definition appendData :: "InterfaceOSRNG \<Rightarrow> byte list \<Rightarrow> InterfaceOSRNG \<times> byte list" where
  "appendData src data = (src\<lparr>osrngData := [], m_bitEntropy := []\<rparr>, data @ osrngData src)"

definition bitEntropy :: "InterfaceOSRNG \<Rightarrow> rat list" where
  "bitEntropy src =
     (let tempEntropy = m_bitEntropy src;
          normalizer = (of_nat (length (osrngData src)) :: rat);
          normalizer = (if \<bar>normalizer\<bar> < 1 / 100 then 1 else normalizer)
      in map (\<lambda>val. val / normalizer) tempEntropy)"

text \<open>The positions of the set bits of a sample, lowest first (the \<open>while (temp)\<close> loop).\<close>

function setBits :: "byte \<Rightarrow> byte \<Rightarrow> byte list" where
  "setBits temp bitPos =
     (if temp = 0 then []
      else (if temp AND 1 \<noteq> 0 then [bitPos] else []) @ setBits (drop_bit 1 temp) (bitPos + 1))"
  by pat_completeness auto
termination
proof (relation "measure (\<lambda>(temp, bitPos). unat temp)")
  show "wf (measure (\<lambda>(temp, bitPos). unat temp))"
    by simp
next
  fix temp bitPos :: byte
  assume "temp \<noteq> 0"
  then have "unat temp \<noteq> 0"
    by (simp add: unat_eq_0)
  then have "unat temp div 2 < unat temp"
    by simp
  then show "((drop_bit 1 temp, bitPos + 1), (temp, bitPos)) \<in> measure (\<lambda>(temp, bitPos). unat temp)"
    by (simp add: drop_bit_eq_div unat_div)
qed

text \<open>\<open>_bitEntropy[val] = _bitEntropy[val] + 1\<close> for each cached bit position.\<close>

fun bumpBits :: "byte list \<Rightarrow> rat list \<Rightarrow> error + rat list" where
  "bumpBits [] e = Inr e"
| "bumpBits (v # vs) e =
     (if unat v < length e then bumpBits vs (e[unat v := e ! unat v + 1])
      else Inl OutOfBounds)"

fun copyNCompEntropy :: "byte list \<Rightarrow> InterfaceOSRNG \<Rightarrow> error + InterfaceOSRNG" where
  "copyNCompEntropy [] src = Inr src"
| "copyNCompEntropy (sample # rest) src =
     (if length (bitCountCache src) \<le> unat sample then Inl OutOfBounds
      else
        let cache = (if bitCountCache src ! unat sample = []
                     then (bitCountCache src)[unat sample := setBits sample 0]
                     else bitCountCache src)
        in case bumpBits (cache ! unat sample) (m_bitEntropy src) of
             Inl e \<Rightarrow> Inl e
           | Inr e' \<Rightarrow>
               copyNCompEntropy rest
                 (src\<lparr>osrngData := osrngData src @ [sample],
                      m_bitEntropy := e',
                      bitCountCache := cache\<rparr>))"

text \<open>
  \<open>generateRandomBytes\<close>: \<open>generated\<close> is what the operating system's generator delivered,
  \<open>None\<close> when it threw.
\<close>

definition generateRandomBytes ::
  "byte list option \<Rightarrow> InterfaceOSRNG \<Rightarrow> error + (bool \<times> InterfaceOSRNG)" where
  "generateRandomBytes generated src =
     (case generated of
        None \<Rightarrow> Inr (False, src)
      | Some tempVec \<Rightarrow>
          (case copyNCompEntropy tempVec src of
             Inl e \<Rightarrow> Inl e
           | Inr src' \<Rightarrow> Inr (True, src')))"

definition OSRNG_source :: "InterfaceOSRNG RandomSource" where
  "OSRNG_source = \<lparr>rs_appendData = appendData, rs_bitEntropy = bitEntropy\<rparr>"

section \<open>Authenticated file channel (fileCryptopp.h, fileCryptopp.cpp)\<close>

text \<open>
  The file system maps a path to the bytes of the file, and says whether an output stream
  can be opened on a path. AES-GCM comes from Crypto++ and is a parameter: each direction
  takes key, IV and text and returns \<open>None\<close> where the library throws.
\<close>

record filesys =
  contents :: "string \<Rightarrow> byte list option"
  can_open_out :: "string \<Rightarrow> bool"

record gcm =
  gcm_encrypt :: "byte list \<Rightarrow> byte list \<Rightarrow> byte list \<Rightarrow> byte list option"
  gcm_decrypt :: "byte list \<Rightarrow> byte list \<Rightarrow> byte list \<Rightarrow> byte list option"

definition AESNODE_DEFAULT_KEY_LENGTH_BYTES :: nat where
  "AESNODE_DEFAULT_KEY_LENGTH_BYTES = 32"

definition AES_BLOCKSIZE :: nat where
  "AES_BLOCKSIZE = 16"

definition fileExists :: "filesys \<Rightarrow> string \<Rightarrow> bool" where
  "fileExists fs filename = (contents fs filename \<noteq> None)"

definition encrypt :: "gcm \<Rightarrow> byte list \<Rightarrow> byte list \<Rightarrow> byte list \<Rightarrow> bool \<times> byte list" where
  "encrypt g message cipherData key =
     (let iv = replicate AES_BLOCKSIZE 0
      in case gcm_encrypt g key iv message of
           None \<Rightarrow> (False, cipherData)
         | Some ciphertext \<Rightarrow> (True, cipherData @ ciphertext))"

definition decrypt :: "gcm \<Rightarrow> byte list \<Rightarrow> byte list \<Rightarrow> byte list \<Rightarrow> bool \<times> byte list" where
  "decrypt g cipher messageData key =
     (let iv = replicate AES_BLOCKSIZE 0
      in case gcm_decrypt g key iv cipher of
           None \<Rightarrow> (False, messageData)
         | Some decryptedtext \<Rightarrow> (True, messageData @ decryptedtext))"

text \<open>\<open>readFile(ss, key)\<close>: the return value and the string stream afterwards.\<close>

definition readFile ::
  "gcm \<Rightarrow> filesys \<Rightarrow> string \<Rightarrow> byte list \<Rightarrow> byte list \<Rightarrow> bool \<times> byte list" where
  "readFile g fs filename ss key =
     (case contents fs filename of
        None \<Rightarrow> (False, ss)
      | Some fileBytes \<Rightarrow>
          if key = [] then (True, ss @ fileBytes)
          else if length key \<noteq> AESNODE_DEFAULT_KEY_LENGTH_BYTES then (False, ss)
          else
            (case decrypt g fileBytes [] key of
               (False, messageData) \<Rightarrow> (False, ss)
             | (True, messageData) \<Rightarrow> (True, ss @ messageData)))"

text \<open>
  \<open>writeFile(ss, key)\<close>: the return value and the file system afterwards. Opening the
  \<open>std::ofstream\<close> creates the file or truncates it; this happens first.
\<close>

definition writeFile ::
  "gcm \<Rightarrow> filesys \<Rightarrow> string \<Rightarrow> byte list \<Rightarrow> byte list \<Rightarrow> bool \<times> filesys" where
  "writeFile g fs filename ss key =
     (if \<not> can_open_out fs filename then (False, fs)
      else
        let opened = fs\<lparr>contents := (contents fs)(filename \<mapsto> [])\<rparr>
        in if key \<noteq> [] then
             (if length key \<noteq> AESNODE_DEFAULT_KEY_LENGTH_BYTES then (False, opened)
              else
                (case encrypt g ss [] key of
                   (False, cipherData) \<Rightarrow> (False, opened)
                 | (True, cipherData) \<Rightarrow>
                     (True, opened\<lparr>contents := (contents opened)(filename \<mapsto> cipherData)\<rparr>)))
           else (True, opened\<lparr>contents := (contents opened)(filename \<mapsto> ss)\<rparr>))"

section \<open>ISAAC engine (isaac.hpp)\<close>

definition ALPHA :: nat where
  "ALPHA = 8"

definition N :: nat where
  "N = 2 ^ ALPHA"

definition GOLDEN_RATIO :: T where
  "GOLDEN_RATIO = 0x9e3779b9"

text \<open>
  \<open>randctx\<close> holds two arrays of \<open>N\<close> words each (\<open>malloc(N * sizeof(T))\<close>), here lists, and
  the scalars. The engine adds the state file name, the key and the flag.
\<close>

record randctx =
  randcnt :: T
  randrsl :: "T list"
  randmem :: "T list"
  randa :: T
  randb :: T
  randc :: T

record QTIsaac =
  m_rc :: randctx
  stateFileName :: string
  m_key :: "byte list"
  initialized :: bool

text \<open>The constructor leaves the context as allocated: \<open>rc\<close> is what the memory holds.\<close>

definition QTIsaac_new :: "randctx \<Rightarrow> QTIsaac" where
  "QTIsaac_new rc =
     \<lparr>m_rc = rc, stateFileName = ''./.isaacrngstate'', m_key = [], initialized = False\<rparr>"

text \<open>
  \<open>ind(mm, x)\<close> reads the word at byte offset \<open>x & ((N-1)<<2)\<close> of \<open>mm\<close>, that is the word
  with index \<open>(x & ((N-1)<<2)) >> 2\<close>.
\<close>

definition ind :: "T list \<Rightarrow> T \<Rightarrow> T" where
  "ind mm x = mm ! unat (drop_bit 2 (x AND push_bit 2 (of_nat (N - 1))))"

text \<open>
  The variables of \<open>isaac\<close> that \<open>rngstep\<close> updates through its reference parameters: \<open>a\<close>,
  \<open>b\<close>, the arrays behind \<open>mm\<close> and \<open>r\<close>, and the pointers \<open>m\<close>, \<open>m2\<close>, \<open>r\<close> as indices.
\<close>

record rngvars =
  va :: T
  vb :: T
  vmm :: "T list"
  vrsl :: "T list"
  vm :: nat
  vm2 :: nat
  vr :: nat

definition rngstep :: "T \<Rightarrow> rngvars \<Rightarrow> rngvars" where
  "rngstep mix s =
     (let x = vmm s ! vm s;
          a = (va s XOR mix) + vmm s ! vm2 s;
          y = ind (vmm s) x + a + vb s;
          mm = (vmm s)[vm s := y];
          b = ind mm (drop_bit ALPHA y) + x
      in \<lparr>va = a, vb = b, vmm = mm, vrsl = (vrsl s)[vr s := b],
          vm = vm s + 1, vm2 = vm2 s + 1, vr = vr s + 1\<rparr>)"

text \<open>The body of both loops of \<open>isaac\<close>: four steps, each mix taken from the current \<open>a\<close>.\<close>

definition rngsteps4 :: "rngvars \<Rightarrow> rngvars" where
  "rngsteps4 s =
     (let s = rngstep (push_bit 13 (va s)) s;
          s = rngstep (drop_bit 6 (va s)) s;
          s = rngstep (push_bit 2 (va s)) s;
          s = rngstep (drop_bit 16 (va s)) s
      in s)"

function isaac_loop1 :: "nat \<Rightarrow> rngvars \<Rightarrow> rngvars" where
  "isaac_loop1 mend s = (if vm s < mend then isaac_loop1 mend (rngsteps4 s) else s)"
  by pat_completeness auto
termination
  by (relation "measure (\<lambda>(mend, s). mend - vm s)")
     (auto simp: rngsteps4_def rngstep_def Let_def)

function isaac_loop2 :: "nat \<Rightarrow> rngvars \<Rightarrow> rngvars" where
  "isaac_loop2 mend s = (if vm2 s < mend then isaac_loop2 mend (rngsteps4 s) else s)"
  by pat_completeness auto
termination
  by (relation "measure (\<lambda>(mend, s). mend - vm2 s)")
     (auto simp: rngsteps4_def rngstep_def Let_def)

definition isaac :: "randctx \<Rightarrow> randctx" where
  "isaac ctx =
     (let c = randc ctx + 1;
          s = \<lparr>va = randa ctx, vb = randb ctx + c, vmm = randmem ctx, vrsl = randrsl ctx,
               vm = 0, vm2 = N div 2, vr = 0\<rparr>;
          mend = N div 2;
          s = isaac_loop1 mend s;
          s = isaac_loop2 mend (s\<lparr>vm2 := 0\<rparr>)
      in ctx\<lparr>randrsl := vrsl s, randmem := vmm s, randa := va s, randb := vb s, randc := c\<rparr>)"

type_synonym regs = "T \<times> T \<times> T \<times> T \<times> T \<times> T \<times> T \<times> T"

definition shuffle :: "regs \<Rightarrow> regs" where
  "shuffle v =
     (case v of (a, b, c, d, e, f, g, h) \<Rightarrow>
        let a = a XOR push_bit 11 b; d = d + a; b = b + c;
            b = b XOR drop_bit 2 c; e = e + b; c = c + d;
            c = c XOR push_bit 8 d; f = f + c; d = d + e;
            d = d XOR drop_bit 16 e; g = g + d; e = e + f;
            e = e XOR push_bit 10 f; h = h + e; f = f + g;
            f = f XOR drop_bit 4 g; a = a + f; g = g + h;
            g = g XOR push_bit 8 h; b = b + g; h = h + a;
            h = h XOR drop_bit 9 a; c = c + h; a = a + b
        in (a, b, c, d, e, f, g, h))"

text \<open>\<open>a+=r[i]; ... h+=r[i+7]\<close> and \<open>m[i]=a; ... m[i+7]=h\<close>.\<close>

definition add8 :: "regs \<Rightarrow> T list \<Rightarrow> nat \<Rightarrow> regs" where
  "add8 v r i =
     (case v of (a, b, c, d, e, f, g, h) \<Rightarrow>
        (a + r ! i, b + r ! (i + 1), c + r ! (i + 2), d + r ! (i + 3),
         e + r ! (i + 4), f + r ! (i + 5), g + r ! (i + 6), h + r ! (i + 7)))"

definition store8 :: "T list \<Rightarrow> nat \<Rightarrow> regs \<Rightarrow> T list" where
  "store8 m i v =
     (case v of (a, b, c, d, e, f, g, h) \<Rightarrow>
        m[i := a, i + 1 := b, i + 2 := c, i + 3 := d,
          i + 4 := e, i + 5 := f, i + 6 := g, i + 7 := h])"

text \<open>The three loops of \<open>randinit\<close>, each over \<open>i = 0, 8, ...\<close> below \<open>N\<close>.\<close>

function absorb_rsl :: "nat \<Rightarrow> regs \<Rightarrow> T list \<Rightarrow> T list \<Rightarrow> regs \<times> T list" where
  "absorb_rsl i v r m =
     (if i < N then
        (let v = shuffle (add8 v r i) in absorb_rsl (i + 8) v r (store8 m i v))
      else (v, m))"
  by pat_completeness auto
termination
  by (relation "measure (\<lambda>(i, v, r, m). N - i)") auto

function absorb_mem :: "nat \<Rightarrow> regs \<Rightarrow> T list \<Rightarrow> regs \<times> T list" where
  "absorb_mem i v m =
     (if i < N then
        (let v = shuffle (add8 v m i) in absorb_mem (i + 8) v (store8 m i v))
      else (v, m))"
  by pat_completeness auto
termination
  by (relation "measure (\<lambda>(i, v, m). N - i)") auto

function fill_mem :: "nat \<Rightarrow> regs \<Rightarrow> T list \<Rightarrow> regs \<times> T list" where
  "fill_mem i v m =
     (if i < N then
        (let v = shuffle v in fill_mem (i + 8) v (store8 m i v))
      else (v, m))"
  by pat_completeness auto
termination
  by (relation "measure (\<lambda>(i, v, m). N - i)") auto

definition randinit :: "randctx \<Rightarrow> bool \<Rightarrow> randctx" where
  "randinit ctx bUseSeed =
     (let g = GOLDEN_RATIO;
          v = (g, g, g, g, g, g, g, g);
          ctx = (if \<not> bUseSeed then ctx\<lparr>randa := 0, randb := 0, randc := 0\<rparr> else ctx);
          v = shuffle (shuffle (shuffle (shuffle v)));
          m = (if bUseSeed then
                 (let (v, m) = absorb_rsl 0 v (randrsl ctx) (randmem ctx);
                      (v, m) = absorb_mem 0 v m
                  in m)
               else snd (fill_mem 0 v (randmem ctx)));
          ctx = isaac (ctx\<lparr>randmem := m\<rparr>)
      in ctx\<lparr>randcnt := of_nat N\<rparr>)"

text \<open>
  \<open>rand()\<close>: the value returned and the engine afterwards. \<open>randcnt\<close> is decremented before it
  indexes \<open>randrsl\<close>; an index outside the array is \<open>OutOfBounds\<close>.
\<close>

definition rand :: "QTIsaac \<Rightarrow> error + (T \<times> QTIsaac)" where
  "rand q =
     (if \<not> initialized q then Inr (0, q)
      else if randcnt (m_rc q) = 0 then
        (let rc = (isaac ((m_rc q)\<lparr>randcnt := randcnt (m_rc q) - 1\<rparr>))\<lparr>randcnt := of_nat (N - 1)\<rparr>
         in if unat (randcnt rc) < length (randrsl rc)
            then Inr (randrsl rc ! unat (randcnt rc), q\<lparr>m_rc := rc\<rparr>)
            else Inl OutOfBounds)
      else
        (let rc = (m_rc q)\<lparr>randcnt := randcnt (m_rc q) - 1\<rparr>
         in if unat (randcnt rc) < length (randrsl rc)
            then Inr (randrsl rc ! unat (randcnt rc), q\<lparr>m_rc := rc\<rparr>)
            else Inl OutOfBounds))"

text \<open>
  The arrays of a context hold \<open>N\<close> words and \<open>randcnt\<close> is at most \<open>N\<close>: this holds after
  \<open>randinit\<close> and after loading what \<open>saveStateToFile\<close> wrote, and \<open>rand\<close> keeps it.
\<close>

definition wf_ctx :: "randctx \<Rightarrow> bool" where
  "wf_ctx rc = (length (randrsl rc) = N \<and> length (randmem rc) = N \<and> unat (randcnt rc) \<le> N)"

section \<open>Persisted state (isaac.hpp, state management)\<close>

text \<open>
  \<open>std::ostream_iterator<T>(fileStream, " ")\<close> writes each value in decimal, followed by one
  space.
\<close>

definition digit_char :: "nat \<Rightarrow> byte" where
  "digit_char d = of_nat (48 + d)"

function decimal :: "nat \<Rightarrow> byte list" where
  "decimal n = (if n < 10 then [digit_char n] else decimal (n div 10) @ [digit_char (n mod 10)])"
  by pat_completeness auto
termination
  by (relation "measure (\<lambda>n. n)") auto

definition write_tokens :: "T list \<Rightarrow> byte list" where
  "write_tokens ts = concat (map (\<lambda>t. decimal (unat t) @ [32]) ts)"

text \<open>
  \<open>std::istream_iterator<T>\<close> extracts tokens until the first extraction that fails. An
  extraction (\<open>operator>>\<close> for the unsigned type \<open>T\<close>, base ten) skips white space,
  takes an optional sign and the digits that follow it; it fails when there is no digit
  or when the digits exceed the largest value of \<open>T\<close>. After a minus sign the value is
  negated in \<open>T\<close>, so \<open>-1\<close> is read as \<open>4294967295\<close>.
\<close>

definition isspace :: "byte \<Rightarrow> bool" where
  "isspace c = (c = 32 \<or> (9 \<le> c \<and> c \<le> 13))"

definition isdigit :: "byte \<Rightarrow> bool" where
  "isdigit c = (48 \<le> c \<and> c \<le> 57)"

definition digits_value :: "byte list \<Rightarrow> nat" where
  "digits_value ds = foldl (\<lambda>v c. 10 * v + (unat c - 48)) 0 ds"

text \<open>The optional sign: whether it is a minus, and the text after it.\<close>

definition read_sign :: "byte list \<Rightarrow> bool \<times> byte list" where
  "read_sign s =
     (case s of
        [] \<Rightarrow> (False, [])
      | c # rest \<Rightarrow>
          if c = 45 then (True, rest)
          else if c = 43 then (False, rest)
          else (False, s))"

function read_tokens :: "byte list \<Rightarrow> T list" where
  "read_tokens s =
     (let s1 = dropWhile isspace s;
          negative = fst (read_sign s1);
          s2 = snd (read_sign s1);
          ds = takeWhile isdigit s2
      in if ds = [] \<or> digits_value ds \<ge> 2 ^ 32 then []
         else (if negative then - of_nat (digits_value ds) else of_nat (digits_value ds))
              # read_tokens (dropWhile isdigit s2))"
  by pat_completeness auto
termination
proof (relation "measure length")
  show "wf (measure length)"
    by simp
next
  fix s s1 s2 :: "byte list" and ds :: "byte list"
  assume s1: "s1 = dropWhile isspace s" and s2: "s2 = snd (read_sign s1)"
    and ds: "ds = takeWhile isdigit s2"
    and ne: "\<not> (ds = [] \<or> 2 ^ 32 \<le> digits_value ds)"
  have "length s2 = length ds + length (dropWhile isdigit s2)"
    unfolding ds by (metis length_append takeWhile_dropWhile_id)
  moreover have "length ds > 0"
    using ne by simp
  moreover have "length s2 \<le> length s1"
    unfolding s2 by (simp add: read_sign_def split: list.splits)
  moreover have "length s1 \<le> length s"
    unfolding s1 by (rule length_dropWhile_le)
  ultimately have "length (dropWhile isdigit s2) < length s"
    by linarith
  then show "(dropWhile isdigit s2, s) \<in> measure length"
    by simp
qed

text \<open>The values that \<open>saveStateToFile\<close> sends to the output iterator, in its order.\<close>

definition saved_tokens :: "randctx \<Rightarrow> T list" where
  "saved_tokens rc =
     [randcnt rc] @ take N (randrsl rc) @ take N (randmem rc)
     @ [randa rc] @ [randb rc] @ [randc rc]"

definition saveStateToFile :: "gcm \<Rightarrow> filesys \<Rightarrow> QTIsaac \<Rightarrow> bool \<times> filesys" where
  "saveStateToFile g fs q =
     (let fileStream = write_tokens (saved_tokens (m_rc q))
      in writeFile g fs (stateFileName q) fileStream (m_key q))"

text \<open>
  \<open>loadStateFromFile\<close>. The vector \<open>stateData\<close> has storage for \<open>3 * N\<close> words reserved
  and is indexed without any check of its size. Every index read is at most
  \<open>1 + N + N + 3\<close>, inside that storage; a read past the tokens yields what the storage
  holds there, which is the parameter \<open>beyond\<close>. \<open>state_of_tokens\<close> is the block of
  assignments from \<open>stateData\<close> to \<open>m_rc\<close>. The result of \<open>loadStateFromFile\<close> is the engine
  afterwards and the return code.
\<close>

definition state_of_tokens :: "(nat \<Rightarrow> T) \<Rightarrow> T list \<Rightarrow> randctx" where
  "state_of_tokens beyond stateData =
     (let tok = (\<lambda>i. if i < length stateData then stateData ! i else beyond i)
      in \<lparr>randcnt = tok 0,
          randrsl = map tok [1 ..< 1 + N],
          randmem = map tok [1 + N ..< 1 + N + N],
          randa = tok (1 + N + N + 1),
          randb = tok (1 + N + N + 2),
          randc = tok (1 + N + N + 3)\<rparr>)"

definition loadStateFromFile ::
  "gcm \<Rightarrow> filesys \<Rightarrow> (nat \<Rightarrow> T) \<Rightarrow> QTIsaac \<Rightarrow> string \<Rightarrow> byte list \<Rightarrow> QTIsaac \<times> int" where
  "loadStateFromFile g fs beyond q file key =
     (if \<not> fileExists fs file then (q\<lparr>initialized := False\<rparr>, - 1)
      else
        (case readFile g fs file [] key of
           (False, fileStream) \<Rightarrow> (q\<lparr>initialized := False\<rparr>, - 2)
         | (True, fileStream) \<Rightarrow>
             let stateData = read_tokens fileStream
             in (q\<lparr>m_rc := state_of_tokens beyond stateData,
                    stateFileName := getValidFile file, m_key := key,
                    initialized := True\<rparr>, 0)))"

definition setIdentifier :: "QTIsaac \<Rightarrow> string \<Rightarrow> QTIsaac" where
  "setIdentifier q pwd = q\<lparr>stateFileName := getValidFile pwd\<rparr>"

definition setKey :: "QTIsaac \<Rightarrow> byte list \<Rightarrow> QTIsaac" where
  "setKey q key = q\<lparr>m_key := key\<rparr>"

definition initialize ::
  "gcm \<Rightarrow> filesys \<Rightarrow> (nat \<Rightarrow> T) \<Rightarrow> QTIsaac \<Rightarrow> string \<Rightarrow> byte list \<Rightarrow> QTIsaac \<times> int" where
  "initialize g fs beyond q file key =
     (let newStateFileName = getValidFile file
      in if newStateFileName = stateFileName q \<and> m_key q = key \<and> initialized q
         then (q, 0)
         else loadStateFromFile g fs beyond q newStateFileName key)"

definition saveState :: "gcm \<Rightarrow> filesys \<Rightarrow> QTIsaac \<Rightarrow> bool \<times> filesys" where
  "saveState g fs q = (if initialized q then saveStateToFile g fs q else (False, fs))"

definition destroy :: "gcm \<Rightarrow> filesys \<Rightarrow> QTIsaac \<Rightarrow> QTIsaac \<times> filesys" where
  "destroy g fs q =
     (let fs = (if initialized q then snd (saveStateToFile g fs q) else fs)
      in (q\<lparr>m_key := [], stateFileName := ''./.isaacrngstate'', initialized := False\<rparr>, fs))"

text \<open>
  \<open>srand(a, b, c, s)\<close>: without a seed (\<open>s == NULL\<close>) the state is resumed from the state
  file; with a seed, \<open>N\<close> terms are read from it.
\<close>

definition srand ::
  "gcm \<Rightarrow> filesys \<Rightarrow> (nat \<Rightarrow> T) \<Rightarrow> QTIsaac \<Rightarrow> T \<Rightarrow> T \<Rightarrow> T \<Rightarrow> T list option \<Rightarrow> error + QTIsaac" where
  "srand g fs beyond q a b c s =
     (case s of
        None \<Rightarrow>
          if initialized q then Inr q
          else
            (case loadStateFromFile g fs beyond q (stateFileName q) (m_key q) of
               (q', rc) \<Rightarrow>
                 if rc = 0 then Inr (q'\<lparr>initialized := True\<rparr>)
                 else Inr (q'\<lparr>initialized := False\<rparr>))
      | Some seed \<Rightarrow>
          if length seed < N then Inl OutOfBounds
          else
            Inr (q\<lparr>initialized := True,
                   m_rc := randinit
                     ((m_rc q)\<lparr>randrsl := take N seed,
                               randa := a, randb := b, randc := c\<rparr>) True\<rparr>))"

section \<open>Random pool (isaacRandomPool.h, isaacRandomPool.cpp)\<close>

record IsaacRandomPool =
  isaacrng :: QTIsaac

text \<open>
  Conversions between \<open>size_t\<close> (64 bits, a natural number below \<open>2 ^ 64\<close>) and \<open>int\<close>
  (32 bits, two's complement), as they happen in \<open>GenerateBlock\<close>.
\<close>

definition to_int :: "nat \<Rightarrow> int" where
  "to_int n = sint (word_of_nat n :: 32 word)"

definition to_size_t :: "int \<Rightarrow> nat" where
  "to_size_t i = unat (word_of_int i :: 64 word)"

definition DIGESTSIZE_256 :: nat where
  "DIGESTSIZE_256 = 32"

text \<open>\<open>k\<close> successive calls \<open>push_back(_isaacrng.rand())\<close>.\<close>

fun draw :: "nat \<Rightarrow> QTIsaac \<Rightarrow> error + (T list \<times> QTIsaac)" where
  "draw 0 q = Inr ([], q)"
| "draw (Suc k) q =
     (case rand q of
        Inl e \<Rightarrow> Inl e
      | Inr (x, q') \<Rightarrow>
          (case draw k q' of
             Inl e \<Rightarrow> Inl e
           | Inr (xs, q'') \<Rightarrow> Inr (x # xs, q'')))"

text \<open>The first loop: 128 words for each of the \<open>numHashes\<close> entries of \<open>randomDataVec\<close>.\<close>

fun fillVec :: "nat \<Rightarrow> QTIsaac \<Rightarrow> error + (T list list \<times> QTIsaac)" where
  "fillVec 0 q = Inr ([], q)"
| "fillVec (Suc j) q =
     (case draw 128 q of
        Inl e \<Rightarrow> Inl e
      | Inr (v, q') \<Rightarrow>
          (case fillVec j q' of
             Inl e \<Rightarrow> Inl e
           | Inr (vs, q'') \<Rightarrow> Inr (v # vs, q'')))"

text \<open>
  \<open>int32toBytes\<close>: byte \<open>i\<close> of a word is \<open>(w & (0xFF << (8 * i))) >> (8 * i)\<close>, computed on
  \<open>int32_t\<close> and cut to \<open>uint8_t\<close>.
\<close>

definition int32toBytes :: "T list \<Rightarrow> byte list" where
  "int32toBytes ws =
     concat (map (\<lambda>w. map (\<lambda>i. ucast (signed_drop_bit (8 * i) (w AND push_bit (8 * i) 0xFF)))
                          [0, 1, 2, 3]) ws)"

text \<open>
  The second loop, over the entries of \<open>randomDataVec\<close>, with \<open>tot\<close> for \<open>int total\<close>.
  \<open>sha3_256\<close> is the hash of Crypto++; the digest array has 32 bytes. The comparison
  \<open>total + digest.size() > size\<close> and the subtraction \<open>size - total\<close> are done in \<open>size_t\<close>,
  and the sum is cut back to \<open>int\<close> when it is stored in \<open>total\<close>. Copying more than the
  digest holds is \<open>OutOfBounds\<close>. The result lists the bytes stored through \<open>output\<close>, in
  order.
\<close>

fun hashLoop :: "(byte list \<Rightarrow> byte list) \<Rightarrow> nat \<Rightarrow> T list list \<Rightarrow> int \<Rightarrow> error + byte list" where
  "hashLoop sha3_256 sz [] tot = Inr []"
| "hashLoop sha3_256 sz (v # vs) tot =
     (let bytes = int32toBytes v;
          digest = fit DIGESTSIZE_256 (sha3_256 bytes)
      in if (to_size_t tot + DIGESTSIZE_256) mod 2 ^ 64 > sz then
           (let n = (sz + 2 ^ 64 - to_size_t tot) mod 2 ^ 64
            in if n \<le> DIGESTSIZE_256 then Inr (take n digest) else Inl OutOfBounds)
         else
           (case hashLoop sha3_256 sz vs (to_int (to_size_t tot + DIGESTSIZE_256)) of
              Inl e \<Rightarrow> Inl e
            | Inr rest \<Rightarrow> Inr (digest @ rest)))"

text \<open>
  \<open>GenerateBlock(output, size)\<close>, with \<open>sz\<close> for \<open>size\<close>: the bytes stored through
  \<open>output\<close> and the pool afterwards, or the exception. A negative \<open>numHashes\<close> as the
  size of \<open>randomDataVec\<close> makes the vector's constructor throw \<open>std::length_error\<close>.
\<close>

definition GenerateBlock ::
  "(byte list \<Rightarrow> byte list) \<Rightarrow> IsaacRandomPool \<Rightarrow> nat \<Rightarrow> error + (byte list \<times> IsaacRandomPool)" where
  "GenerateBlock sha3_256 pool sz =
     (if \<not> initialized (isaacrng pool) then Inl RngUninitialised
      else if sz = 0 then Inr ([], pool)
      else
        let numHashes = to_int (if sz mod 32 \<noteq> 0 then sz div 32 + 1 else sz div 32)
        in if numHashes < 0 then Inl LengthError
           else
             (case fillVec (nat numHashes) (isaacrng pool) of
                Inl e \<Rightarrow> Inl e
              | Inr (randomDataVec, q) \<Rightarrow>
                  (case hashLoop sha3_256 sz randomDataVec 0 of
                     Inl e \<Rightarrow> Inl e
                   | Inr written \<Rightarrow> Inr (written, pool\<lparr>isaacrng := q\<rparr>))))"

text \<open>The digest that the second loop of \<open>GenerateBlock\<close> computes for one entry.\<close>

definition digest_of :: "(byte list \<Rightarrow> byte list) \<Rightarrow> T list \<Rightarrow> byte list" where
  "digest_of sha3_256 v = fit DIGESTSIZE_256 (sha3_256 (int32toBytes v))"

section \<open>Concrete instances\<close>

text \<open>
  Inputs at which the theorems below are evaluated: a mixer with 16 partitions after
  \<open>generateSeed\<close> (with a stand-in for the hash), a freshly constructed pool, a stand-in
  for AES-GCM that leaves the text as it is, and a file system with one state file.
\<close>

definition digest0 :: "byte list" where
  "digest0 = [1, 2, 3, 4, 5, 6, 7, 8] @ replicate 56 0"

definition mixer16 :: SeedGenerator where
  "mixer16 = generateSeed (\<lambda>h. [1, 2, 3, 4, 5, 6, 7, 8]) (SeedGenerator_new 16)"

text \<open>Roundings that leave every value as it is, and an OS source that holds 64 samples.\<close>

definition exact_rounding :: rounding where
  "exact_rounding = \<lparr>to_float = (\<lambda>x. x), to_double = (\<lambda>x. x)\<rparr>"

definition osrng_full :: InterfaceOSRNG where
  "osrng_full =
     \<lparr>osrngData = replicate 64 255, m_bitEntropy = replicate 8 64,
      bitCountCache = (replicate 256 [])[255 := [0, 1, 2, 3, 4, 5, 6, 7]]\<rparr>"

definition ctx0 :: randctx where
  "ctx0 = \<lparr>randcnt = 0, randrsl = replicate 256 0, randmem = replicate 256 0,
           randa = 0, randb = 0, randc = 0\<rparr>"

definition pool0 :: IsaacRandomPool where
  "pool0 = \<lparr>isaacrng = QTIsaac_new ctx0\<rparr>"

definition gcm0 :: gcm where
  "gcm0 = \<lparr>gcm_encrypt = (\<lambda>key iv text. Some text), gcm_decrypt = (\<lambda>key iv text. Some text)\<rparr>"

definition fs0 :: filesys where
  "fs0 = \<lparr>contents = (\<lambda>path. None)(''./state'' \<mapsto> [49, 32, 50, 32]),
          can_open_out = (\<lambda>path. True)\<rparr>"

text \<open>
  An initialised engine with distinct registers, what reserved storage holds (zeros), and a
  file system whose state file holds 517 tokens.
\<close>

definition engine1 :: QTIsaac where
  "engine1 =
     \<lparr>m_rc = \<lparr>randcnt = 256, randrsl = replicate 256 7, randmem = replicate 256 9,
              randa = 1, randb = 2, randc = 3\<rparr>,
      stateFileName = ''./state'', m_key = [], initialized = True\<rparr>"

definition zero_storage :: "nat \<Rightarrow> T" where
  "zero_storage i = 0"

definition fs517 :: filesys where
  "fs517 = \<lparr>contents = (\<lambda>path. None)(''./state'' \<mapsto> write_tokens (replicate 517 5)),
            can_open_out = (\<lambda>path. True)\<rparr>"

definition pool1 :: IsaacRandomPool where
  "pool1 = \<lparr>isaacrng = engine1\<rparr>"

section \<open>Properties\<close>

declare groupBytes.simps [simp del]
declare processBatches.simps [simp del]
declare setBits.simps [simp del]
declare decimal.simps [simp del]
declare read_tokens.simps [simp del]
declare isaac_loop1.simps [simp del]
declare isaac_loop2.simps [simp del]
declare absorb_rsl.simps [simp del]
declare absorb_mem.simps [simp del]
declare fill_mem.simps [simp del]

subsection \<open>Path normalisation\<close>

lemma find_last_of_None: "find_last_of s c = None \<longleftrightarrow> c \<notin> set s"
  by (induction s) (auto split: option.splits)

lemma find_last_of_append:
  "c \<notin> set name \<Longrightarrow> find_last_of (dir @ c # name) c = Some (length dir)"
  by (induction dir) (auto simp: find_last_of_None split: option.splits)

lemma getValidFile_no_slash:
  "CHR ''/'' \<notin> set file \<Longrightarrow> getValidFile file = ''./'' @ file"
  by (simp add: getValidFile_def find_last_of_None [THEN iffD2])

text \<open>
  With a slash, the \<open>filename\<close> of the source starts at the last slash, so the cut at 32
  bytes counts the slash: 31 bytes of the name after the slash are kept.
\<close>

lemma getValidFile_slash:
  assumes "CHR ''/'' \<notin> set name"
  shows "getValidFile (dir @ CHR ''/'' # name) = dir @ CHR ''/'' # take 31 name"
  using assms
  by (simp add: getValidFile_def find_last_of_append substr_def substr_from_def Let_def)

text \<open>
  C9. An identifier without a slash is stored with \<open>./\<close> in front; otherwise the directory
  part is kept and the file name after the last slash is cut to at most 32 bytes. The
  code cuts a file name of exactly 32 bytes after the last slash down to 31 bytes:
\<close>

theorem C9_filename_of_32_bytes_is_cut:
  "stateFileName (setIdentifier q ''d/aaaaaaaaaabbbbbbbbbbccccccccccdd'')
   = ''d/aaaaaaaaaabbbbbbbbbbccccccccccd''"
  by (simp add: setIdentifier_def getValidFile_def substr_def substr_from_def Let_def)

subsection \<open>Seed generator\<close>

lemma digests_mixer16: "digests mixer16 = replicate 16 digest0"
  by (simp add: mixer16_def generateSeed_def SeedGenerator_new_def fit_def
      DIGESTSIZE_512_def digest0_def)

lemma seedReady_mixer16: "seedReady mixer16"
  by (simp add: mixer16_def generateSeed_def SeedGenerator_new_def)

lemma groupBytes_digest0: "groupBytes digest0 0 4 4 = Inr [16909060]"
proof -
  have "groupBytes digest0 4 4 4 = Inr []"
    by (subst groupBytes.simps) simp
  moreover have "groupTerm 4 (take 4 (drop 0 digest0)) = 16909060"
    by (simp add: groupTerm_def digest0_def)
  moreover have "length digest0 = 64"
    by (simp add: digest0_def)
  ultimately show ?thesis
    by (subst groupBytes.simps) simp
qed

lemma groupBytes_whole:
  assumes "0 < numBytes" and "b + k * numBytes = e" and "e \<le> length arr"
  shows "groupBytes arr b e numBytes
         = Inr (map (\<lambda>j. groupTerm numBytes (take numBytes (drop (b + j * numBytes) arr))) [0..<k])"
  using assms
proof (induction k arbitrary: b)
  case 0
  then show ?case
    by (subst groupBytes.simps) simp
next
  case (Suc k)
  have ne: "b \<noteq> e" and fits: "\<not> length arr < b + numBytes"
    using Suc.prems by auto
  have "(b + numBytes) + k * numBytes = e"
    using Suc.prems by simp
  then have ih: "groupBytes arr (b + numBytes) e numBytes
         = Inr (map (\<lambda>j. groupTerm numBytes (take numBytes (drop (b + numBytes + j * numBytes) arr))) [0..<k])"
    using Suc.prems by (intro Suc.IH) simp_all
  have "map (\<lambda>j. groupTerm numBytes (take numBytes (drop (b + j * numBytes) arr))) [0..<Suc k]
        = groupTerm numBytes (take numBytes (drop b arr))
          # map (\<lambda>j. groupTerm numBytes (take numBytes (drop (b + numBytes + j * numBytes) arr))) [0..<k]"
    by (simp add: upt_conv_Cons map_Suc_upt [symmetric] add.assoc del: upt_Suc)
  then show ?case
    using ne fits Suc.prems(1) by (subst groupBytes.simps) (simp add: ih)
qed

lemma groupBytes_overshoot:
  assumes "0 < numBytes" and "e < b"
  shows "groupBytes arr b e numBytes = Inl OutOfBounds"
  using assms
proof (induction "length arr - b" arbitrary: b rule: less_induct)
  case less
  show ?case
  proof (cases "length arr < b + numBytes")
    case True
    with less.prems show ?thesis
      by (subst groupBytes.simps) simp
  next
    case False
    have "groupBytes arr (b + numBytes) e numBytes = Inl OutOfBounds"
      using less.prems False by (intro less.hyps) simp_all
    with less.prems False show ?thesis
      by (subst groupBytes.simps) simp
  qed
qed

lemma length_terms_of [simp]: "length (terms_of numBytes d) = length d div numBytes"
  by (simp add: terms_of_def)

lemma groupBytes_prefix:
  assumes "0 < numBytes" and "q * numBytes \<le> length d"
  shows "groupBytes d 0 (q * numBytes) numBytes = Inr (take q (terms_of numBytes d))"
proof -
  have "q \<le> length d div numBytes"
    using assms by (simp add: less_eq_div_iff_mult_less_eq)
  then have "take q (terms_of numBytes d)
             = map (\<lambda>j. groupTerm numBytes (take numBytes (drop (j * numBytes) d))) [0..<q]"
    by (simp add: terms_of_def take_map)
  moreover have "groupBytes d 0 (q * numBytes) numBytes
         = Inr (map (\<lambda>j. groupTerm numBytes (take numBytes (drop (0 + j * numBytes) d))) [0..<q])"
    using assms by (intro groupBytes_whole) simp_all
  ultimately show ?thesis
    by simp
qed

lemma groupBytes_not_multiple:
  assumes "0 < numBytes" and "b \<le> e" and "\<not> numBytes dvd (e - b)"
  shows "groupBytes arr b e numBytes = Inl OutOfBounds"
  using assms
proof (induction "e - b" arbitrary: b rule: less_induct)
  case less
  have ne: "b \<noteq> e"
    using less.prems by auto
  show ?case
  proof (cases "length arr < b + numBytes")
    case True
    with ne less.prems show ?thesis
      by (subst groupBytes.simps) simp
  next
    case False
    have "groupBytes arr (b + numBytes) e numBytes = Inl OutOfBounds"
    proof (cases "e < b + numBytes")
      case True
      with less.prems show ?thesis
        by (intro groupBytes_overshoot) simp_all
    next
      case le: False
      then have "e - b = (e - (b + numBytes)) + numBytes"
        by simp
      then have "\<not> numBytes dvd (e - (b + numBytes))"
        using less.prems(3) by (metis dvd_add_triv_right_iff)
      with le less.prems ne show ?thesis
        by (intro less.hyps) simp_all
    qed
    with ne False less.prems show ?thesis
      by (subst groupBytes.simps) simp
  qed
qed

lemma copyDigests_result:
  assumes "0 < numBytes" and "numBytes * possibleGroups = 64"
    and "\<forall>d \<in> set ds. length d = 64" and "len \<le> possibleGroups * length ds"
  shows "copyDigests numBytes possibleGroups ds len
         = (if numBytes dvd (len mod possibleGroups)
            then Inr (take (len div possibleGroups * possibleGroups
                            + (len mod possibleGroups) div numBytes)
                        (concat (map (terms_of numBytes) ds)))
            else Inl OutOfBounds)"
  using assms(3,4)
proof (induction ds arbitrary: len)
  case Nil
  then show ?case
    by simp
next
  case (Cons d ds)
  have dlen: "length d = 64"
    using Cons.prems(1) by simp
  have pg: "0 < possibleGroups"
    using assms(2) by (cases possibleGroups) simp_all
  have "(numBytes * possibleGroups) div numBytes = possibleGroups"
    using assms(1) by simp
  then have pgdiv: "64 div numBytes = possibleGroups"
    by (simp add: assms(2))
  have lt: "length (terms_of numBytes d) = possibleGroups"
    by (simp add: dlen pgdiv)
  show ?case
  proof (cases "possibleGroups > len")
    case True
    then have dm: "len div possibleGroups = 0" "len mod possibleGroups = len"
      by simp_all
    show ?thesis
    proof (cases "numBytes dvd len")
      case dvd: True
      then obtain q where q: "len = q * numBytes"
        by (auto simp: dvd_def mult.commute)
      have "1 * possibleGroups \<le> numBytes * possibleGroups"
        using assms(1) by (intro mult_le_mono1) simp
      then have pg64: "possibleGroups \<le> 64"
        by (simp add: assms(2))
      have "1 * q \<le> numBytes * q"
        using assms(1) by (intro mult_le_mono1) simp
      then have qle: "q \<le> len"
        by (simp add: q mult.commute)
      have fits: "q * numBytes \<le> length d"
        using True pg64 by (simp add: q [symmetric] dlen)
      then have "groupBytes d 0 (q * numBytes) numBytes = Inr (take q (terms_of numBytes d))"
        using assms(1) by (intro groupBytes_prefix)
      moreover have "q \<le> possibleGroups"
        using qle True by simp
      ultimately show ?thesis
        using True dvd assms(1) by (simp add: dm q [symmetric] dlen pgdiv) (simp add: q)
    next
      case False
      then have "groupBytes d 0 len numBytes = Inl OutOfBounds"
        using assms(1) by (intro groupBytes_not_multiple) simp_all
      with True False show ?thesis
        by (simp add: dm)
    qed
  next
    case False
    then have ge: "possibleGroups \<le> len"
      by simp
    have whole: "groupBytes d 0 DIGESTSIZE_512 numBytes = Inr (terms_of numBytes d)"
    proof -
      have "groupBytes d 0 (possibleGroups * numBytes) numBytes
            = Inr (take possibleGroups (terms_of numBytes d))"
        using assms(1,2) dlen by (intro groupBytes_prefix) (simp_all add: mult.commute)
      then show ?thesis
        using assms(2) by (simp add: DIGESTSIZE_512_def mult.commute dlen pgdiv)
    qed
    have rest: "copyDigests numBytes possibleGroups ds (len - possibleGroups)
         = (if numBytes dvd ((len - possibleGroups) mod possibleGroups)
            then Inr (take ((len - possibleGroups) div possibleGroups * possibleGroups
                            + ((len - possibleGroups) mod possibleGroups) div numBytes)
                        (concat (map (terms_of numBytes) ds)))
            else Inl OutOfBounds)"
      using Cons.prems ge by (intro Cons.IH) (simp_all add: algebra_simps)
    have m: "(len - possibleGroups) mod possibleGroups = len mod possibleGroups"
      using ge by (simp add: le_mod_geq)
    have d: "len div possibleGroups = Suc ((len - possibleGroups) div possibleGroups)"
      using ge pg by (simp add: le_div_geq)
    show ?thesis
      using False by (simp add: whole rest m d dlen pgdiv)
  qed
qed

text \<open>
  What \<open>copySeed\<close> writes, for term sizes 1, 2, 4 and 8 and \<open>len\<close> within the limit:
  whole digests give all their terms; in a last, partial digest the \<open>len\<close> terms still
  wanted are taken as a number of bytes, so \<open>len / numBytes\<close> terms are written when
  \<open>numBytes\<close> divides it, and otherwise the loop of \<open>groupBytes\<close> steps over its end and
  leaves the digest.
\<close>

lemma copySeed_result:
  assumes "seedReady g" and "numBytes \<in> {1, 2, 4, 8}"
    and "\<forall>d \<in> set (digests g). length d = 64"
    and "len \<le> (64 div numBytes) * length (digests g)"
  shows "copySeed g numBytes len
         = (if numBytes dvd (len mod (64 div numBytes))
            then Inr (take (len div (64 div numBytes) * (64 div numBytes)
                            + (len mod (64 div numBytes)) div numBytes)
                        (concat (map (terms_of numBytes) (digests g))),
                      g\<lparr>seedReady := False\<rparr>)
            else Inl OutOfBounds)"
proof -
  have pos: "0 < numBytes" and pow: "numBytes AND (numBytes - 1) = 0"
    and prod: "numBytes * (64 div numBytes) = 64"
    using assms(2) by auto
  have "copyDigests numBytes (64 div numBytes) (digests g) len
         = (if numBytes dvd (len mod (64 div numBytes))
            then Inr (take (len div (64 div numBytes) * (64 div numBytes)
                            + (len mod (64 div numBytes)) div numBytes)
                        (concat (map (terms_of numBytes) (digests g))))
            else Inl OutOfBounds)"
    using pos prod assms(3,4) by (rule copyDigests_result)
  then show ?thesis
    using assms(1,4) pos pow by (simp add: copySeed_def DIGESTSIZE_512_def Let_def)
qed

text \<open>
  So the terms are the claimed ones for single bytes, and whenever \<open>len\<close> is a multiple
  of the terms per digest (as in the pool, which asks for 256 terms of 4 bytes from 16
  digests).
\<close>

lemma copySeed_as_claimed:
  assumes "seedReady g" and "numBytes \<in> {1, 2, 4, 8}"
    and "\<forall>d \<in> set (digests g). length d = 64"
    and "len \<le> (64 div numBytes) * length (digests g)"
    and "numBytes = 1 \<or> len mod (64 div numBytes) = 0"
  shows "copySeed g numBytes len
         = Inr (take len (concat (map (terms_of numBytes) (digests g))), g\<lparr>seedReady := False\<rparr>)"
proof -
  have "numBytes dvd (len mod (64 div numBytes))"
    using assms(5) by auto
  moreover have "len div (64 div numBytes) * (64 div numBytes)
                  + (len mod (64 div numBytes)) div numBytes = len"
    using assms(5) by auto
  ultimately show ?thesis
    using copySeed_result [OF assms(1-4)] by simp
qed

text \<open>
  C5. With \<open>seedReady\<close>, a term size that is a power of two and \<open>len\<close> within the limit,
  \<open>copySeed\<close> writes exactly \<open>len\<close> big-endian terms and clears \<open>seedReady\<close>. The code
  sets the end of a last, partial digest to \<open>begin + len\<close>, a number of bytes: asked for
  4 terms of 4 bytes, the 16-partition mixer writes one term.
\<close>

theorem C5_four_terms_requested_one_written:
  "copySeed mixer16 4 4 = Inr ([16909060], mixer16\<lparr>seedReady := False\<rparr>)"
proof -
  have d: "digests mixer16 = digest0 # replicate 15 digest0"
    by (simp add: digests_mixer16 eval_nat_numeral)
  have "copyDigests 4 16 (digests mixer16) 4 = Inr [16909060]"
    by (simp add: d groupBytes_digest0)
  moreover have "(4::nat) AND (4 - 1) = 0"
    by simp
  ultimately show ?thesis
    by (simp add: copySeed_def seedReady_mixer16 DIGESTSIZE_512_def digests_mixer16)
qed

text \<open>
  C6. With 16 partitions, \<open>copySeed\<close> asked for more than \<open>16 * (64 / sizeof(T))\<close> terms
  returns without writing anything (and leaves the mixer as it was).
\<close>

theorem C6_copy_refused:
  assumes "length (digests g) = 16" and "0 < numBytes" and "len > 16 * (64 div numBytes)"
  shows "copySeed g numBytes len = Inr ([], g)"
  using assms by (simp add: copySeed_def DIGESTSIZE_512_def Let_def mult.commute)

theorem C6_copy_refused_witness:
  "length (digests mixer16) = 16 \<and> (0::nat) < 4 \<and> (257::nat) > 16 * (64 div 4)
   \<and> copySeed mixer16 4 257 = Inr ([], mixer16)"
proof -
  have h1: "length (digests mixer16) = 16"
    by (simp add: digests_mixer16)
  have h2: "(0::nat) < 4"
    by simp
  have h3: "(257::nat) > 16 * (64 div 4)"
    by simp
  show ?thesis
    using h1 h2 h3 C6_copy_refused [OF h1 h2 h3] by simp
qed

text \<open>
  C7. While \<open>seedReady\<close> holds, \<open>processFromSource\<close> returns false and changes nothing:
  the mixer and its hash contexts stay as they were and the source is not read.
\<close>

theorem C7_seed_locked:
  assumes "seedReady g"
  shows "processFromSource r randomSource g s = Inr (False, g, s)"
  using assms by (simp add: processFromSource_def)

theorem C7_seed_locked_witness:
  "seedReady mixer16
   \<and> processFromSource exact_rounding OSRNG_source mixer16 osrng_full
       = Inr (False, mixer16, osrng_full)"
  using seedReady_mixer16
    C7_seed_locked [OF seedReady_mixer16, of exact_rounding OSRNG_source osrng_full]
  by simp

subsection \<open>OS entropy source\<close>

lemma appendData_empties: "osrngData (fst (appendData src data)) = []"
  by (simp add: appendData_def)

lemma bitEntropy_new: "bitEntropy InterfaceOSRNG_new = replicate 8 0"
  by (simp add: bitEntropy_def InterfaceOSRNG_new_def)

lemma bitEntropy_after_appendData: "bitEntropy (fst (appendData src data)) = []"
  by (simp add: bitEntropy_def appendData_def)

lemma bumpBits_empty: "bumpBits (v # vs) [] = Inl OutOfBounds"
  by simp

lemma setBits_1: "setBits 1 0 = [0]"
  by (subst setBits.simps, subst setBits.simps) simp

text \<open>A drained source that captures again writes outside the emptied vector.\<close>

lemma drained_source_capture:
  "generateRandomBytes (Some [1]) (fst (appendData InterfaceOSRNG_new [])) = Inl OutOfBounds"
  by (simp add: generateRandomBytes_def appendData_def InterfaceOSRNG_new_def setBits_1 Let_def)

text \<open>
  C8. After \<open>appendData\<close> the buffer of the source is empty, and \<open>bitEntropy\<close> on a source
  without samples gives zeros, as many as a sample has bits (8 for the OS source), not an
  empty vector. In the code \<open>appendData\<close> clears \<open>_bitEntropy\<close> itself, so a drained source
  answers with the empty vector:
\<close>

theorem C8_drained_source_has_empty_bit_vector:
  "osrngData (fst (appendData InterfaceOSRNG_new [])) = []
   \<and> bitEntropy (fst (appendData InterfaceOSRNG_new [])) = []"
  by (simp add: bitEntropy_def appendData_def InterfaceOSRNG_new_def)

subsection \<open>File channel\<close>

text \<open>
  C10. For a non-empty key whose length is not 32, \<open>writeFile\<close> returns false and writes
  no ciphertext; the output file has been opened before the key is looked at, so a file
  that exists at the path is left empty, not unchanged.
\<close>

theorem C10_invalid_key_truncates:
  assumes "key \<noteq> []" and "length key \<noteq> 32"
  shows "writeFile g fs filename ss key =
           (if can_open_out fs filename
            then (False, fs\<lparr>contents := (contents fs)(filename \<mapsto> [])\<rparr>)
            else (False, fs))"
  using assms by (simp add: writeFile_def AESNODE_DEFAULT_KEY_LENGTH_BYTES_def Let_def)

theorem C10_invalid_key_truncates_witness:
  "[7 :: byte] \<noteq> [] \<and> length [7 :: byte] \<noteq> 32
   \<and> contents fs0 ''./state'' = Some [49, 32, 50, 32]
   \<and> fst (writeFile gcm0 fs0 ''./state'' [51, 32] [7]) = False
   \<and> contents (snd (writeFile gcm0 fs0 ''./state'' [51, 32] [7])) ''./state'' = Some []"
proof -
  have h1: "[7 :: byte] \<noteq> []"
    by simp
  have h2: "length [7 :: byte] \<noteq> 32"
    by simp
  show ?thesis
    using C10_invalid_key_truncates [OF h1 h2, of gcm0 fs0 "''./state''" "[51, 32]"]
    by (simp add: fs0_def)
qed

subsection \<open>Persisted state\<close>

lemma unat_digit_char: "d < 10 \<Longrightarrow> unat (digit_char d) = 48 + d"
  unfolding digit_char_def unat_of_nat by simp

lemma isdigit_digit_char: "d < 10 \<Longrightarrow> isdigit (digit_char d)"
  by (simp add: isdigit_def word_le_nat_alt unat_digit_char)

lemma isdigit_not_isspace: "isdigit c \<Longrightarrow> \<not> isspace c"
  by (auto simp: isdigit_def isspace_def word_le_nat_alt)

lemma not_isdigit_space: "\<not> isdigit 32"
  by (simp add: isdigit_def)

lemma decimal_nonempty: "decimal n \<noteq> []"
  by (subst decimal.simps) simp

lemma decimal_isdigit: "c \<in> set (decimal n) \<Longrightarrow> isdigit c"
proof (induction n arbitrary: c rule: decimal.induct)
  case (1 n)
  show ?case
  proof (cases "n < 10")
    case True
    with "1.prems" show ?thesis
      by (subst (asm) decimal.simps) (simp add: isdigit_digit_char)
  next
    case False
    with "1.prems" have "c \<in> set (decimal (n div 10)) \<or> c = digit_char (n mod 10)"
      by (subst (asm) decimal.simps) auto
    then show ?thesis
      using "1.IH" [OF False] by (auto simp: isdigit_digit_char)
  qed
qed

lemma digits_value_snoc: "digits_value (ds @ [c]) = 10 * digits_value ds + (unat c - 48)"
  by (simp add: digits_value_def)

lemma digits_value_decimal: "digits_value (decimal n) = n"
proof (induction n rule: decimal.induct)
  case (1 n)
  show ?case
  proof (cases "n < 10")
    case True
    then show ?thesis
      by (subst decimal.simps) (simp add: digits_value_def unat_digit_char)
  next
    case False
    then have "digits_value (decimal n) = 10 * digits_value (decimal (n div 10)) + (unat (digit_char (n mod 10)) - 48)"
      by (subst decimal.simps) (simp add: digits_value_snoc)
    also have "\<dots> = 10 * (n div 10) + n mod 10"
      using "1.IH" [OF False] by (simp add: unat_digit_char)
    finally show ?thesis
      by simp
  qed
qed

lemma read_sign_digit: "isdigit c \<Longrightarrow> read_sign (c # cs) = (False, c # cs)"
  by (auto simp: read_sign_def isdigit_def)

lemma read_tokens_Nil: "read_tokens [] = []"
  by (subst read_tokens.simps) (simp add: read_sign_def)

lemma read_tokens_skip: "read_tokens (dropWhile isspace s) = read_tokens s"
  using read_tokens.simps [of "dropWhile isspace s"] read_tokens.simps [of s]
  by simp

text \<open>A minus sign is taken and the value negated: \<open>-1 2\<close> gives two tokens.\<close>

lemma read_tokens_signed: "read_tokens [45, 49, 32, 50] = [4294967295, 2]"
proof -
  have 1: "read_tokens [] = []"
    by (rule read_tokens_Nil)
  have 2: "read_tokens [32, 50] = [2]"
    by (subst read_tokens.simps)
       (simp add: 1 isspace_def isdigit_def read_sign_def digits_value_def)
  show ?thesis
    by (subst read_tokens.simps)
       (simp add: 2 isspace_def isdigit_def read_sign_def digits_value_def)
qed

lemma read_tokens_space: "read_tokens (32 # rest) = read_tokens rest"
proof -
  have "dropWhile isspace (32 # rest) = dropWhile isspace rest"
    by (simp add: isspace_def)
  then show ?thesis
    by (metis read_tokens_skip)
qed

lemma read_tokens_decimal:
  assumes "n < 2 ^ 32"
  shows "read_tokens (decimal n @ 32 # rest) = of_nat n # read_tokens rest"
proof -
  obtain c cs where cs: "decimal n = c # cs"
    using decimal_nonempty [of n] by (cases "decimal n") auto
  then have "isdigit c"
    using decimal_isdigit [of c n] by simp
  then have sp: "dropWhile isspace (decimal n @ 32 # rest) = decimal n @ 32 # rest"
    by (simp add: cs isdigit_not_isspace)
  have sg: "read_sign (decimal n @ 32 # rest) = (False, decimal n @ 32 # rest)"
    using \<open>isdigit c\<close> by (simp add: cs read_sign_digit)
  have tw: "takeWhile isdigit (decimal n @ 32 # rest) = decimal n"
    by (simp add: decimal_isdigit not_isdigit_space)
  have dw: "dropWhile isdigit (decimal n @ 32 # rest) = 32 # rest"
    by (simp add: decimal_isdigit not_isdigit_space)
  show ?thesis
    using assms
    by (subst read_tokens.simps)
       (simp add: sp sg tw dw decimal_nonempty digits_value_decimal read_tokens_space Let_def)
qed

lemma read_write_tokens: "read_tokens (write_tokens ts) = ts"
proof (induction ts)
  case Nil
  show ?case
    by (simp add: write_tokens_def read_tokens_Nil)
next
  case (Cons t ts)
  have "unat t < 2 ^ 32"
    using unsigned_less [of t] by simp
  then have "read_tokens (decimal (unat t) @ 32 # write_tokens ts) = of_nat (unat t) # read_tokens (write_tokens ts)"
    by (rule read_tokens_decimal)
  then show ?case
    using Cons.IH by (simp add: write_tokens_def)
qed

lemma N_256: "N = 256"
  by (simp add: N_def ALPHA_def)

lemma map_tok_upt:
  "b \<le> length xs \<Longrightarrow>
   map (\<lambda>i. if i < length xs then xs ! i else beyond i) [a..<b] = drop a (take b xs)"
  by (rule nth_equalityI) auto

lemma state_of_saved_tokens:
  assumes "length (randrsl rc) = N" and "length (randmem rc) = N"
  shows "state_of_tokens beyond (saved_tokens rc)
         = rc\<lparr>randa := randb rc, randb := randc rc, randc := beyond (1 + N + N + 3)\<rparr>"
proof -
  let ?ts = "saved_tokens rc"
  have ts: "?ts = randcnt rc # randrsl rc @ randmem rc @ [randa rc, randb rc, randc rc]"
    using assms by (simp add: saved_tokens_def)
  have len: "length ?ts = 516"
    using assms by (simp add: ts N_256)
  have rsl: "map (\<lambda>i. if i < length ?ts then ?ts ! i else beyond i) [1 ..< 257] = drop 1 (take 257 ?ts)"
    by (rule map_tok_upt) (simp add: len)
  then have rsl: "map (\<lambda>i. if i < length ?ts then ?ts ! i else beyond i) [1 ..< 257] = randrsl rc"
    using assms by (simp add: ts N_256)
  have mem: "map (\<lambda>i. if i < length ?ts then ?ts ! i else beyond i) [257 ..< 513] = drop 257 (take 513 ?ts)"
    by (rule map_tok_upt) (simp add: len)
  then have mem: "map (\<lambda>i. if i < length ?ts then ?ts ! i else beyond i) [257 ..< 513] = randmem rc"
    using assms by (simp add: ts N_256)
  have a: "?ts ! 514 = randb rc" and b: "?ts ! 515 = randc rc" and c: "?ts ! 0 = randcnt rc"
    using assms by (simp_all add: ts N_256 nth_append)
  show ?thesis
    unfolding state_of_tokens_def Let_def N_256
    using rsl mem a b c by (simp add: len)
qed

lemma read_after_write_plain:
  assumes "can_open_out fs name"
  shows "writeFile g fs name ss [] = (True, fs\<lparr>contents := (contents fs)(name \<mapsto> ss)\<rparr>)"
    and "fileExists (fs\<lparr>contents := (contents fs)(name \<mapsto> ss)\<rparr>) name"
    and "readFile g (fs\<lparr>contents := (contents fs)(name \<mapsto> ss)\<rparr>) name [] [] = (True, ss)"
  using assms by (simp_all add: writeFile_def fileExists_def readFile_def Let_def)

lemma save_plain:
  assumes "can_open_out fs (stateFileName q)" and "m_key q = []"
  shows "saveStateToFile g fs q
         = (True, fs\<lparr>contents := (contents fs)(stateFileName q \<mapsto>
                          write_tokens (saved_tokens (m_rc q)))\<rparr>)"
  using assms by (simp add: saveStateToFile_def read_after_write_plain(1))

lemma load_after_save:
  assumes "length (randrsl (m_rc q)) = N" and "length (randmem (m_rc q)) = N"
    and "can_open_out fs (stateFileName q)" and "m_key q = []"
  shows "loadStateFromFile g (snd (saveStateToFile g fs q)) beyond q' (stateFileName q) []
         = (q'\<lparr>m_rc := (m_rc q)\<lparr>randa := randb (m_rc q), randb := randc (m_rc q),
                                 randc := beyond (1 + N + N + 3)\<rparr>,
               stateFileName := getValidFile (stateFileName q), m_key := [],
               initialized := True\<rparr>, 0)"
  using assms
  by (simp add: save_plain loadStateFromFile_def read_after_write_plain(2,3)
      read_write_tokens state_of_saved_tokens)

lemma load_after_save_keyed:
  assumes "length (randrsl (m_rc q)) = N" and "length (randmem (m_rc q)) = N"
    and "can_open_out fs (stateFileName q)" and "length (m_key q) = 32"
    and "gcm_encrypt g (m_key q) (replicate 16 0) (write_tokens (saved_tokens (m_rc q))) = Some c"
    and "gcm_decrypt g (m_key q) (replicate 16 0) c = Some (write_tokens (saved_tokens (m_rc q)))"
  shows "loadStateFromFile g (snd (saveStateToFile g fs q)) beyond q' (stateFileName q) (m_key q)
         = (q'\<lparr>m_rc := (m_rc q)\<lparr>randa := randb (m_rc q), randb := randc (m_rc q),
                                 randc := beyond (1 + N + N + 3)\<rparr>,
               stateFileName := getValidFile (stateFileName q), m_key := m_key q,
               initialized := True\<rparr>, 0)"
proof -
  have k: "m_key q \<noteq> []"
    using assms(4) by auto
  have w: "saveStateToFile g fs q
           = (True, fs\<lparr>contents := (contents fs)(stateFileName q \<mapsto> c)\<rparr>)"
    using assms(3,4,5) k
    by (simp add: saveStateToFile_def writeFile_def encrypt_def Let_def
        AESNODE_DEFAULT_KEY_LENGTH_BYTES_def AES_BLOCKSIZE_def)
  show ?thesis
    using assms(1,2,4,6) k
    by (simp add: w loadStateFromFile_def fileExists_def readFile_def decrypt_def
        AESNODE_DEFAULT_KEY_LENGTH_BYTES_def AES_BLOCKSIZE_def read_write_tokens
        state_of_saved_tokens)
qed

lemma getValidFile_state: "getValidFile ''./state'' = ''./state''"
  by (simp add: getValidFile_def substr_def substr_from_def Let_def)

text \<open>
  C1. Saving the state and loading it back with the same key restores \<open>randcnt\<close>,
  \<open>randrsl\<close>, \<open>randmem\<close>, \<open>randa\<close>, \<open>randb\<close> and \<open>randc\<close>, so that the reloaded engine
  continues the stream. The code reads the three registers one position too far: after the
  reload \<open>randa\<close> holds the saved \<open>randb\<close>, \<open>randb\<close> the saved \<open>randc\<close>, and \<open>randc\<close> what lies
  behind the last token. For the engine with registers 1, 2, 3:
\<close>

theorem C1_reload_shifts_registers:
  "fst (saveStateToFile gcm0 fs0 engine1)
   \<and> loadStateFromFile gcm0 (snd (saveStateToFile gcm0 fs0 engine1)) zero_storage
         (QTIsaac_new ctx0) ''./state'' []
       = (engine1\<lparr>m_rc := (m_rc engine1)\<lparr>randa := 2, randb := 3, randc := 0\<rparr>\<rparr>, 0)"
proof -
  have 1: "length (randrsl (m_rc engine1)) = N" and 2: "length (randmem (m_rc engine1)) = N"
    by (simp_all add: engine1_def N_256)
  have 3: "can_open_out fs0 (stateFileName engine1)"
    by (simp add: fs0_def)
  have 4: "m_key engine1 = []" and 5: "stateFileName engine1 = ''./state''"
    by (simp_all add: engine1_def)
  have "fst (saveStateToFile gcm0 fs0 engine1)"
    by (simp add: save_plain [OF 3 4])
  then show ?thesis
    using load_after_save [OF 1 2 3 4, of gcm0 zero_storage "QTIsaac_new ctx0"]
    by (simp add: 5 getValidFile_state) (simp add: engine1_def QTIsaac_new_def zero_storage_def)
qed

lemma state_of_long_tokens:
  assumes "2 * N + 4 < length ts"
  shows "randcnt (state_of_tokens beyond ts) = ts ! 0"
    and "randrsl (state_of_tokens beyond ts) = take N (drop 1 ts)"
    and "randmem (state_of_tokens beyond ts) = take N (drop (1 + N) ts)"
proof -
  have len: "516 < length ts"
    using assms by (simp add: N_256)
  have rsl: "map (\<lambda>i. if i < length ts then ts ! i else beyond i) [1 ..< 257]
             = drop 1 (take 257 ts)"
    using len by (intro map_tok_upt) simp
  have mem: "map (\<lambda>i. if i < length ts then ts ! i else beyond i) [257 ..< 513]
             = drop 257 (take 513 ts)"
    using len by (intro map_tok_upt) simp
  have rsl': "drop 1 (take 257 ts) = take 256 (drop 1 ts)"
    by (simp add: drop_take)
  have mem': "drop 257 (take 513 ts) = take 256 (drop 257 ts)"
    by (simp add: drop_take)
  show "randcnt (state_of_tokens beyond ts) = ts ! 0"
    unfolding state_of_tokens_def Let_def using len by auto
  show "randrsl (state_of_tokens beyond ts) = take N (drop 1 ts)"
    unfolding state_of_tokens_def Let_def N_256 using rsl rsl' by simp
  show "randmem (state_of_tokens beyond ts) = take N (drop (1 + N) ts)"
    unfolding state_of_tokens_def Let_def N_256 using mem mem' by simp
qed

text \<open>
  C2 (as amended). Loading refuses a missing file with -1 and a file that cannot be read
  or decrypted with -2, and then leaves the generator state as it was and the engine
  not initialised. A file that is read and holds more than \<open>2 * N + 4\<close> tokens is not
  refused: loading returns 0, marks the engine initialised, stores the key, and takes
  \<open>randcnt\<close>, \<open>randrsl\<close> and \<open>randmem\<close> from the first \<open>1 + 2 * N\<close> tokens in order.
\<close>

theorem C2_load_refusals_and_long_files:
  "(\<not> fileExists fs file \<longrightarrow>
      loadStateFromFile g fs beyond q file key = (q\<lparr>initialized := False\<rparr>, - 1))
   \<and> (fileExists fs file \<and> \<not> fst (readFile g fs file [] key) \<longrightarrow>
      loadStateFromFile g fs beyond q file key = (q\<lparr>initialized := False\<rparr>, - 2))
   \<and> (fileExists fs file \<and> fst (readFile g fs file [] key)
       \<and> 2 * N + 4 < length (read_tokens (snd (readFile g fs file [] key))) \<longrightarrow>
      snd (loadStateFromFile g fs beyond q file key) = 0
      \<and> initialized (fst (loadStateFromFile g fs beyond q file key))
      \<and> m_key (fst (loadStateFromFile g fs beyond q file key)) = key
      \<and> randcnt (m_rc (fst (loadStateFromFile g fs beyond q file key)))
          = read_tokens (snd (readFile g fs file [] key)) ! 0
      \<and> randrsl (m_rc (fst (loadStateFromFile g fs beyond q file key)))
          = take N (drop 1 (read_tokens (snd (readFile g fs file [] key))))
      \<and> randmem (m_rc (fst (loadStateFromFile g fs beyond q file key)))
          = take N (drop (1 + N) (read_tokens (snd (readFile g fs file [] key)))))"
proof (intro conjI impI)
  assume "\<not> fileExists fs file"
  then show "loadStateFromFile g fs beyond q file key = (q\<lparr>initialized := False\<rparr>, - 1)"
    by (simp add: loadStateFromFile_def)
next
  assume "fileExists fs file \<and> \<not> fst (readFile g fs file [] key)"
  then show "loadStateFromFile g fs beyond q file key = (q\<lparr>initialized := False\<rparr>, - 2)"
    by (cases "readFile g fs file [] key") (simp add: loadStateFromFile_def)
next
  assume a: "fileExists fs file \<and> fst (readFile g fs file [] key)
       \<and> 2 * N + 4 < length (read_tokens (snd (readFile g fs file [] key)))"
  obtain ss where r: "readFile g fs file [] key = (True, ss)"
    using a by (cases "readFile g fs file [] key") simp
  have l: "loadStateFromFile g fs beyond q file key
           = (q\<lparr>m_rc := state_of_tokens beyond (read_tokens ss),
                 stateFileName := getValidFile file, m_key := key,
                 initialized := True\<rparr>, 0)"
    using a by (simp add: loadStateFromFile_def r)
  have long: "2 * N + 4 < length (read_tokens ss)"
    using a by (simp add: r)
  show "snd (loadStateFromFile g fs beyond q file key) = 0"
    and "initialized (fst (loadStateFromFile g fs beyond q file key))"
    and "m_key (fst (loadStateFromFile g fs beyond q file key)) = key"
    by (simp_all add: l)
  show "randcnt (m_rc (fst (loadStateFromFile g fs beyond q file key)))
          = read_tokens (snd (readFile g fs file [] key)) ! 0"
    by (simp add: l r state_of_long_tokens(1) [OF long])
  show "randrsl (m_rc (fst (loadStateFromFile g fs beyond q file key)))
          = take N (drop 1 (read_tokens (snd (readFile g fs file [] key))))"
    by (simp add: l r state_of_long_tokens(2) [OF long])
  show "randmem (m_rc (fst (loadStateFromFile g fs beyond q file key)))
          = take N (drop (1 + N) (read_tokens (snd (readFile g fs file [] key))))"
    by (simp add: l r state_of_long_tokens(3) [OF long])
qed

theorem C2_load_refusals_and_long_files_witness:
  "\<not> fileExists fs0 ''./missing''
   \<and> loadStateFromFile gcm0 fs0 zero_storage engine1 ''./missing'' []
       = (engine1\<lparr>initialized := False\<rparr>, - 1)
   \<and> fileExists fs0 ''./state'' \<and> \<not> fst (readFile gcm0 fs0 ''./state'' [] [7])
   \<and> loadStateFromFile gcm0 fs0 zero_storage engine1 ''./state'' [7]
       = (engine1\<lparr>initialized := False\<rparr>, - 2)
   \<and> fileExists fs517 ''./state'' \<and> fst (readFile gcm0 fs517 ''./state'' [] [])
   \<and> 2 * N + 4 < length (read_tokens (snd (readFile gcm0 fs517 ''./state'' [] [])))
   \<and> snd (loadStateFromFile gcm0 fs517 zero_storage engine1 ''./state'' []) = 0
   \<and> initialized (fst (loadStateFromFile gcm0 fs517 zero_storage engine1 ''./state'' []))
   \<and> randcnt (m_rc (fst (loadStateFromFile gcm0 fs517 zero_storage engine1 ''./state'' []))) = 5
   \<and> randrsl (m_rc (fst (loadStateFromFile gcm0 fs517 zero_storage engine1 ''./state'' [])))
       = replicate 256 5
   \<and> randmem (m_rc (fst (loadStateFromFile gcm0 fs517 zero_storage engine1 ''./state'' [])))
       = replicate 256 5"
proof -
  have m: "\<not> fileExists fs0 ''./missing''"
    by (simp add: fileExists_def fs0_def)
  have e: "fileExists fs0 ''./state''"
    by (simp add: fileExists_def fs0_def)
  have u: "\<not> fst (readFile gcm0 fs0 ''./state'' [] [7])"
    by (simp add: readFile_def fs0_def AESNODE_DEFAULT_KEY_LENGTH_BYTES_def)
  have e5: "fileExists fs517 ''./state''"
    by (simp add: fileExists_def fs517_def)
  have r5: "readFile gcm0 fs517 ''./state'' [] [] = (True, write_tokens (replicate 517 5))"
    by (simp add: readFile_def fs517_def)
  have t5: "read_tokens (snd (readFile gcm0 fs517 ''./state'' [] [])) = replicate 517 5"
    by (simp add: r5 read_write_tokens)
  have l5: "2 * N + 4 < length (read_tokens (snd (readFile gcm0 fs517 ''./state'' [] [])))"
    by (simp add: t5 N_256)
  have f5: "fst (readFile gcm0 fs517 ''./state'' [] [])"
    by (simp add: r5)
  show ?thesis
    using m e u e5 f5 l5
      C2_load_refusals_and_long_files [of fs0 "''./missing''" gcm0 zero_storage engine1 "[]"]
      C2_load_refusals_and_long_files [of fs0 "''./state''" gcm0 zero_storage engine1 "[7]"]
      C2_load_refusals_and_long_files [of fs517 "''./state''" gcm0 zero_storage engine1 "[]"]
    by (simp add: t5 N_256)
qed

lemma state_of_517_tokens:
  "state_of_tokens beyond (replicate 517 x)
   = \<lparr>randcnt = x, randrsl = replicate 256 x, randmem = replicate 256 x,
      randa = x, randb = x, randc = x\<rparr>"
proof -
  have "map (\<lambda>i. if i < length (replicate 517 x) then replicate 517 x ! i else beyond i) [1 ..< 257]
        = drop 1 (take 257 (replicate 517 x))"
    by (rule map_tok_upt) simp
  moreover have "map (\<lambda>i. if i < length (replicate 517 x) then replicate 517 x ! i else beyond i) [257 ..< 513]
        = drop 257 (take 513 (replicate 517 x))"
    by (rule map_tok_upt) simp
  ultimately show ?thesis
    unfolding state_of_tokens_def Let_def N_256 by simp
qed

text \<open>
  C2 (as stated). A file whose content has a number of tokens other than 516 is refused.
  A state file of 517 tokens is loaded with success:
\<close>

theorem C2_file_of_517_tokens_is_loaded:
  "length (read_tokens (the (contents fs517 ''./state''))) = 517
   \<and> loadStateFromFile gcm0 fs517 zero_storage (QTIsaac_new ctx0) ''./state'' []
       = (\<lparr>m_rc = \<lparr>randcnt = 5, randrsl = replicate 256 5, randmem = replicate 256 5,
                    randa = 5, randb = 5, randc = 5\<rparr>,
           stateFileName = ''./state'', m_key = [], initialized = True\<rparr>, 0)"
  by (simp add: fs517_def read_write_tokens loadStateFromFile_def fileExists_def readFile_def
      state_of_517_tokens getValidFile_state QTIsaac_new_def)


subsection \<open>Random pool\<close>

lemma length_rngstep [simp]:
  "length (vmm (rngstep mix s)) = length (vmm s)" "length (vrsl (rngstep mix s)) = length (vrsl s)"
  by (simp_all add: rngstep_def Let_def)

lemma length_rngsteps4 [simp]:
  "length (vmm (rngsteps4 s)) = length (vmm s)" "length (vrsl (rngsteps4 s)) = length (vrsl s)"
  by (simp_all add: rngsteps4_def Let_def)

lemma length_isaac_loop1:
  "length (vmm (isaac_loop1 mend s)) = length (vmm s) \<and> length (vrsl (isaac_loop1 mend s)) = length (vrsl s)"
proof (induction mend s rule: isaac_loop1.induct)
  case (1 mend s)
  then show ?case
    by (subst (1 2) isaac_loop1.simps) simp
qed

lemma length_isaac_loop2:
  "length (vmm (isaac_loop2 mend s)) = length (vmm s) \<and> length (vrsl (isaac_loop2 mend s)) = length (vrsl s)"
proof (induction mend s rule: isaac_loop2.induct)
  case (1 mend s)
  then show ?case
    by (subst (1 2) isaac_loop2.simps) simp
qed

lemma length_isaac:
  "length (randrsl (isaac ctx)) = length (randrsl ctx)" "length (randmem (isaac ctx)) = length (randmem ctx)"
  by (simp_all add: isaac_def Let_def length_isaac_loop1 length_isaac_loop2)

lemma rand_wf:
  assumes "wf_ctx (m_rc q)"
  shows "\<exists>x q'. rand q = Inr (x, q') \<and> wf_ctx (m_rc q') \<and> initialized q' = initialized q"
proof (cases "initialized q")
  case False
  with assms show ?thesis
    by (simp add: rand_def)
next
  case init: True
  show ?thesis
  proof (cases "randcnt (m_rc q) = 0")
    case True
    have "unat (of_nat (N - 1) :: T) = 255"
      by (simp add: N_256)
    with assms init True show ?thesis
      by (simp add: rand_def Let_def wf_ctx_def length_isaac N_256)
  next
    case False
    then have "unat (randcnt (m_rc q)) \<noteq> 0"
      by (simp add: unat_eq_0)
    then have "unat (randcnt (m_rc q) - 1) = unat (randcnt (m_rc q)) - 1"
      by (simp add: unat_minus_one False)
    with assms init False \<open>unat (randcnt (m_rc q)) \<noteq> 0\<close> show ?thesis
      by (auto simp: rand_def Let_def wf_ctx_def)
  qed
qed

lemma draw_wf:
  assumes "wf_ctx (m_rc q)"
  shows "\<exists>xs q'. draw k q = Inr (xs, q') \<and> length xs = k \<and> wf_ctx (m_rc q')
                  \<and> initialized q' = initialized q"
  using assms
proof (induction k arbitrary: q)
  case 0
  then show ?case by simp
next
  case (Suc k)
  from rand_wf [OF Suc.prems] obtain x q1 where
    r: "rand q = Inr (x, q1)" "wf_ctx (m_rc q1)" "initialized q1 = initialized q"
    by blast
  from Suc.IH [OF r(2)] obtain xs q2 where
    d: "draw k q1 = Inr (xs, q2)" "length xs = k" "wf_ctx (m_rc q2)" "initialized q2 = initialized q1"
    by blast
  show ?case
    by (simp add: r d)
qed

lemma fillVec_wf:
  assumes "wf_ctx (m_rc q)"
  shows "\<exists>vs q'. fillVec j q = Inr (vs, q') \<and> length vs = j \<and> wf_ctx (m_rc q')
                  \<and> initialized q' = initialized q"
  using assms
proof (induction j arbitrary: q)
  case 0
  then show ?case by simp
next
  case (Suc j)
  from draw_wf [OF Suc.prems, of 128] obtain v q1 where
    r: "draw 128 q = Inr (v, q1)" "wf_ctx (m_rc q1)" "initialized q1 = initialized q"
    by blast
  from Suc.IH [OF r(2)] obtain vs q2 where
    d: "fillVec j q1 = Inr (vs, q2)" "length vs = j" "wf_ctx (m_rc q2)" "initialized q2 = initialized q1"
    by blast
  show ?case
    by (simp add: r d)
qed

lemma length_store8 [simp]: "length (store8 m i v) = length m"
  by (simp add: store8_def split: prod.splits)

lemma length_absorb_rsl: "length (snd (absorb_rsl i v r m)) = length m"
proof (induction i v r m rule: absorb_rsl.induct)
  case (1 i v r m)
  then show ?case
    by (subst absorb_rsl.simps) (simp add: Let_def)
qed

lemma length_absorb_mem: "length (snd (absorb_mem i v m)) = length m"
proof (induction i v m rule: absorb_mem.induct)
  case (1 i v m)
  then show ?case
    by (subst absorb_mem.simps) (simp add: Let_def)
qed

lemma length_fill_mem: "length (snd (fill_mem i v m)) = length m"
proof (induction i v m rule: fill_mem.induct)
  case (1 i v m)
  then show ?case
    by (subst fill_mem.simps) (simp add: Let_def)
qed

text \<open>Seeding establishes the invariant of the context.\<close>

lemma wf_randinit:
  assumes "length (randrsl ctx) = N" and "length (randmem ctx) = N"
  shows "wf_ctx (randinit ctx bUseSeed)"
proof -
  have "unat (of_nat N :: T) = N"
    by (simp add: N_256)
  moreover have "length (snd (absorb_mem 0 (fst (absorb_rsl 0 v (randrsl ctx) (randmem ctx)))
                     (snd (absorb_rsl 0 v (randrsl ctx) (randmem ctx))))) = N" for v
    using assms by (simp add: length_absorb_mem length_absorb_rsl)
  ultimately show ?thesis
    using assms
    by (simp add: wf_ctx_def randinit_def Let_def length_isaac length_fill_mem split: prod.splits)
       (metis length_absorb_mem length_absorb_rsl snd_conv)
qed

lemma wf_srand_seed:
  assumes "srand g fs beyond q a b c (Some seed) = Inr q'" and "length (randmem (m_rc q)) = N"
  shows "wf_ctx (m_rc q') \<and> initialized q'"
proof -
  from assms(1) have len: "N \<le> length seed"
    by (simp add: srand_def split: if_splits)
  then have "length (take N seed) = N"
    by simp
  with assms len show ?thesis
    by (auto simp: srand_def intro!: wf_randinit)
qed

lemma to_int_small: "n < 2 ^ 31 \<Longrightarrow> to_int n = int n"
proof -
  assume "n < 2 ^ 31"
  then have "int n < 2 ^ 31"
    by (metis of_nat_less_iff of_nat_numeral of_nat_power)
  then have "signed_take_bit 31 (int n) = int n"
    by (simp add: signed_take_bit_int_eq_self)
  then show ?thesis
    by (simp add: to_int_def signed_of_nat)
qed

lemma to_size_t_nat: "n < 2 ^ 64 \<Longrightarrow> to_size_t (int n) = n"
  by (simp add: to_size_t_def unat_of_nat)

lemma length_fit [simp]: "length (fit n xs) = n"
  by (simp add: fit_def)

lemma length_digest_of [simp]: "length (digest_of sha v) = 32"
  by (simp add: digest_of_def DIGESTSIZE_256_def)

lemma hashLoop_whole_chunks:
  assumes "t + 32 * length vs \<le> sz" and "t + 32 * length vs < 2 ^ 31"
  shows "hashLoop sha sz (vs @ ws) (int t)
         = (case hashLoop sha sz ws (int (t + 32 * length vs)) of
              Inl e \<Rightarrow> Inl e
            | Inr rest \<Rightarrow> Inr (concat (map (digest_of sha) vs) @ rest))"
  using assms
proof (induction vs arbitrary: t)
  case Nil
  show ?case
    by (simp split: sum.splits)
next
  case (Cons v vs)
  have t: "t + 32 < 2 ^ 31" "t + 32 \<le> sz"
    using Cons.prems by simp_all
  then have t64: "t < 2 ^ 64" "t + 32 < 2 ^ 64"
    by simp_all
  have step: "to_int (to_size_t (int t) + DIGESTSIZE_256) = int (t + 32)"
    using t t64 by (simp add: to_size_t_nat to_int_small DIGESTSIZE_256_def)
  have nolast: "\<not> (to_size_t (int t) + DIGESTSIZE_256) mod 2 ^ 64 > sz"
    using t t64 by (simp add: to_size_t_nat DIGESTSIZE_256_def)
  have ih: "hashLoop sha sz (vs @ ws) (int (t + 32))
         = (case hashLoop sha sz ws (int (t + 32 + 32 * length vs)) of
              Inl e \<Rightarrow> Inl e
            | Inr rest \<Rightarrow> Inr (concat (map (digest_of sha) vs) @ rest))"
    using Cons.prems by (intro Cons.IH) simp_all
  have a: "t + 32 + 32 * length vs = t + 32 * length (v # vs)"
    by simp
  show ?case
    using nolast
    by (simp add: Let_def step ih a digest_of_def [symmetric] del: of_nat_add split: sum.splits)
qed

lemma hashLoop_last_chunk:
  assumes "t < 2 ^ 31" and "t \<le> sz" and "sz < t + 32"
  shows "hashLoop sha sz [v] (int t) = Inr (take (sz - t) (digest_of sha v))"
proof -
  have t64: "t < 2 ^ 64" "t + 32 < 2 ^ 64" "sz < 2 ^ 64"
    using assms by simp_all
  have "(sz + 2 ^ 64 - t) mod 2 ^ 64 = sz - t"
  proof -
    have e: "sz + 2 ^ 64 - t = (sz - t) + 2 ^ 64"
      using assms by simp
    have "(sz + 2 ^ 64 - t) mod 2 ^ 64 = (sz - t) mod 2 ^ 64"
      unfolding e by simp
    also have "\<dots> = sz - t"
      using t64 by (intro mod_less) simp
    finally show ?thesis .
  qed
  then show ?thesis
    using assms t64
    by (simp add: Let_def to_size_t_nat DIGESTSIZE_256_def digest_of_def)
qed

lemma hashLoop_small:
  assumes "sz < 2 ^ 31"
    and "length vs = (if sz mod 32 \<noteq> 0 then sz div 32 + 1 else sz div 32)"
  shows "hashLoop sha sz vs 0 = Inr (take sz (concat (map (digest_of sha) vs)))"
proof (cases "sz mod 32 = 0")
  case True
  then have len: "length vs = sz div 32" and sz: "32 * length vs = sz"
    using assms by auto
  have "hashLoop sha sz (vs @ []) (int 0)
         = (case hashLoop sha sz [] (int (0 + 32 * length vs)) of
              Inl e \<Rightarrow> Inl e
            | Inr rest \<Rightarrow> Inr (concat (map (digest_of sha) vs) @ rest))"
    using assms(1) sz by (intro hashLoop_whole_chunks) simp_all
  moreover have "length (concat (map (digest_of sha) vs)) = sz"
    using sz by (simp add: length_concat comp_def sum_list_triv)
  ultimately show ?thesis
    by simp
next
  case False
  then have len: "length vs = sz div 32 + 1"
    using assms by simp
  then obtain ws v where vs: "vs = ws @ [v]" and lw: "length ws = sz div 32"
    by (metis Suc_eq_plus1 length_Suc_conv_rev)
  have le: "32 * length ws \<le> sz" and lt: "sz < 32 * length ws + 32"
    unfolding lw by presburger+
  have "hashLoop sha sz (ws @ [v]) (int 0)
         = (case hashLoop sha sz [v] (int (0 + 32 * length ws)) of
              Inl e \<Rightarrow> Inl e
            | Inr rest \<Rightarrow> Inr (concat (map (digest_of sha) ws) @ rest))"
    using assms(1) le by (intro hashLoop_whole_chunks) simp_all
  moreover have "hashLoop sha sz [v] (int (32 * length ws))
         = Inr (take (sz - 32 * length ws) (digest_of sha v))"
    using assms(1) le lt by (intro hashLoop_last_chunk) simp_all
  moreover have "length (concat (map (digest_of sha) ws)) = 32 * length ws"
    by (simp add: length_concat comp_def sum_list_triv)
  ultimately show ?thesis
    using le by (simp add: vs)
qed

lemma last_two:
  assumes "length xs = Suc (Suc n)"
  shows "xs = take n xs @ [xs ! n, xs ! Suc n]"
proof (rule nth_equalityI)
  show "length xs = length (take n xs @ [xs ! n, xs ! Suc n])"
    using assms by simp
next
  fix i
  assume "i < length xs"
  then consider "i < n" | "i = n" | "i = Suc n"
    using assms by linarith
  then show "xs ! i = (take n xs @ [xs ! n, xs ! Suc n]) ! i"
    using assms by cases (simp_all add: nth_append)
qed

lemma hashLoop_overflow:
  assumes "length vs = 67108865"
  shows "hashLoop sha 2147483649 vs 0 = Inl OutOfBounds"
proof -
  let ?ws = "take 67108863 vs"
  have "length vs = Suc (Suc 67108863)"
    using assms by simp
  then have "vs = take 67108863 vs @ [vs ! 67108863, vs ! Suc 67108863]"
    by (rule last_two)
  then have vs: "vs = ?ws @ [vs ! 67108863, vs ! 67108864]"
    by simp
  have lw: "length ?ws = 67108863"
    using assms by simp
  have "hashLoop sha 2147483649 (?ws @ [vs ! 67108863, vs ! 67108864]) (int 0)
         = (case hashLoop sha 2147483649 [vs ! 67108863, vs ! 67108864] (int (0 + 32 * length ?ws)) of
              Inl e \<Rightarrow> Inl e
            | Inr rest \<Rightarrow> Inr (concat (map (digest_of sha) ?ws) @ rest))"
    by (intro hashLoop_whole_chunks) (simp_all add: lw)
  moreover have "hashLoop sha 2147483649 [vs ! 67108863, vs ! 67108864] 2147483616 = Inl OutOfBounds"
    by (simp add: Let_def to_int_def to_size_t_def DIGESTSIZE_256_def)
  ultimately have "hashLoop sha 2147483649 (?ws @ [vs ! 67108863, vs ! 67108864]) 0 = Inl OutOfBounds"
    by (simp only: lw of_nat_0 add_0 mult.commute [of 32] sum.case)
       (simp add: mult.commute)
  then show ?thesis
    using vs by simp
qed

lemma GenerateBlock_overflow:
  assumes "initialized (isaacrng pool)" and "wf_ctx (m_rc (isaacrng pool))"
  shows "GenerateBlock sha pool 2147483649 = Inl OutOfBounds"
proof -
  have n: "to_int 67108865 = 67108865"
    by (simp add: to_int_def)
  from fillVec_wf [OF assms(2), of 67108865] obtain vs q' where
    f: "fillVec 67108865 (isaacrng pool) = Inr (vs, q')" "length vs = 67108865"
    by blast
  show ?thesis
    using assms(1) f(2) by (simp add: GenerateBlock_def n f(1) hashLoop_overflow del: fillVec.simps)
qed

text \<open>
  For sizes below \<open>2 ^ 31\<close> the block is as claimed: the digests of the chunks in order,
  the last one cut, \<open>sz\<close> bytes in all.
\<close>

lemma GenerateBlock_small:
  assumes "initialized (isaacrng pool)" and "wf_ctx (m_rc (isaacrng pool))" and "sz < 2 ^ 31"
  shows "\<exists>vs q. fillVec (if sz mod 32 \<noteq> 0 then sz div 32 + 1 else sz div 32) (isaacrng pool)
                  = Inr (vs, q)
               \<and> GenerateBlock sha pool sz
                  = Inr (take sz (concat (map (digest_of sha) vs)), pool\<lparr>isaacrng := q\<rparr>)
               \<and> length (take sz (concat (map (digest_of sha) vs))) = sz"
proof -
  define k where "k = (if sz mod 32 \<noteq> 0 then sz div 32 + 1 else sz div 32)"
  from fillVec_wf [OF assms(2), of k] obtain vs q where
    f: "fillVec k (isaacrng pool) = Inr (vs, q)" and lv: "length vs = k"
    by blast
  have szk: "sz \<le> 32 * k"
    unfolding k_def by presburger
  have "sz div 32 < 67108864"
    using assms(3) by (simp add: div_less_iff_less_mult)
  then have k: "k < 2 ^ 31"
    by (simp add: k_def)
  have n: "to_int k = int k"
    using k by (rule to_int_small)
  have h: "hashLoop sha sz vs 0 = Inr (take sz (concat (map (digest_of sha) vs)))"
    using assms(3) lv unfolding k_def by (rule hashLoop_small)
  have "length (concat (map (digest_of sha) vs)) = 32 * k"
    by (simp add: length_concat comp_def sum_list_triv lv)
  with szk have l: "length (take sz (concat (map (digest_of sha) vs))) = sz"
    by simp
  have g: "GenerateBlock sha pool sz
           = Inr (take sz (concat (map (digest_of sha) vs)), pool\<lparr>isaacrng := q\<rparr>)"
  proof (cases "sz = 0")
    case True
    then have "k = 0"
      by (simp add: k_def)
    with f have "q = isaacrng pool"
      by simp
    with True assms(1) show ?thesis
      by (simp add: GenerateBlock_def)
  next
    case False
    with assms(1) show ?thesis
      unfolding GenerateBlock_def Let_def k_def [symmetric] n
      by (simp add: f h del: fillVec.simps)
  qed
  show ?thesis
    using f g l unfolding k_def by blast
qed


lemma wf_engine1: "wf_ctx (m_rc engine1)"
  by (simp add: wf_ctx_def engine1_def N_256)

text \<open>
  C3. For every initialised pool and every size \<open>S\<close>, \<open>GenerateBlock(dst, S)\<close> writes
  exactly \<open>S\<close> bytes: whole 32-byte digests and, from the last one, the remaining bytes.
  The code counts the bytes written in an \<open>int\<close>. Asked for \<open>2 ^ 31 + 1\<close> bytes, the
  count wraps to \<open>- 2 ^ 31\<close> after \<open>2 ^ 26\<close> chunks, and the last chunk copies
  \<open>2 ^ 32 + 1\<close> bytes out of the 32-byte digest instead of one byte:
\<close>

theorem C3_int_total_overflows:
  "GenerateBlock sha3_256 pool1 2147483649 = Inl OutOfBounds"
  by (rule GenerateBlock_overflow) (simp_all add: pool1_def wf_engine1, simp add: engine1_def)

text \<open>
  C4. On an engine that is not initialised \<open>rand()\<close> returns 0 and does nothing else;
  \<open>GenerateBlock\<close> on a pool with such an engine throws instead of returning bytes.
\<close>

theorem C4_uninitialised_guard:
  assumes "\<not> initialized (isaacrng pool)"
  shows "rand (isaacrng pool) = Inr (0, isaacrng pool)
         \<and> GenerateBlock sha3_256 pool sz = Inl RngUninitialised"
  using assms by (simp add: rand_def GenerateBlock_def)

theorem C4_uninitialised_guard_witness:
  "\<not> initialized (isaacrng pool0)
   \<and> rand (isaacrng pool0) = Inr (0, isaacrng pool0)
   \<and> GenerateBlock (\<lambda>bs. []) pool0 32 = Inl RngUninitialised"
proof -
  have h: "\<not> initialized (isaacrng pool0)"
    by (simp add: pool0_def QTIsaac_new_def)
  show ?thesis
    using h C4_uninitialised_guard [OF h, of "\<lambda>bs. []" 32] by simp
qed

end
